theory Spec2Isabelle
  imports Main "HOL-Library.Sublist"
begin

section \<open>The flint tokenizer (src/cxx/Tokenizer.cpp)\<close>

text \<open>
  A shallow embedding of \<^verbatim>\<open>tokenize\<close> and of the munchers it calls, as the build with
  \<^verbatim>\<open>NDEBUG\<close> runs them: no \<^verbatim>\<open>assert\<close> is checked.

  Memory is a \<open>string\<close>: the characters of the input, the NUL that ends \<^verbatim>\<open>c_str()\<close>, and
  then whatever bytes follow the buffer (a parameter, \<open>beyond\<close>). A \<^verbatim>\<open>StringPiece\<close> is a view
  into memory (offset of its first character and size), as folly's range is a pair of
  pointers into storage it does not own. \<^verbatim>\<open>pc[i]\<close> and \<^verbatim>\<open>pc.front()\<close> read memory at the
  offset of the piece without looking at its size, so a read past the end of the piece
  yields the byte that lies there. Only a read that leaves the memory the model was given
  has no value: it is the outcome \<open>OutsideMemory\<close>. \<^verbatim>\<open>advance\<close> does check the size, and
  throws \<^verbatim>\<open>std::out_of_range\<close>: the error \<open>OutOfRange\<close>. The other exceptions are the
  \<^verbatim>\<open>runtime_error\<close>s of \<^verbatim>\<open>FBEXCEPTION\<close> and \<^verbatim>\<open>ENFORCE\<close>.
\<close>

subsection \<open>Characters\<close>

abbreviation NUL :: char where "NUL \<equiv> CHR 0x00"
abbreviation TAB :: char where "TAB \<equiv> CHR 0x09"
abbreviation NL :: char where "NL \<equiv> CHR 0x0A"
abbreviation CR :: char where "CR \<equiv> CHR 0x0D"
abbreviation DQUOTE :: char where "DQUOTE \<equiv> CHR 0x22"
abbreviation SQUOTE :: char where "SQUOTE \<equiv> CHR 0x27"
abbreviation BACKSLASH :: char where "BACKSLASH \<equiv> CHR 0x5C"
abbreviation BACKQUOTE :: char where "BACKQUOTE \<equiv> CHR 0x60"

text \<open>
  The classification functions of \<^verbatim>\<open><cctype>\<close> in the "C" locale. A byte above 127 is in
  no class.
\<close>

definition isdigit :: "char \<Rightarrow> bool" where
  "isdigit c = (c \<in> set ''0123456789'')"

definition isalpha :: "char \<Rightarrow> bool" where
  "isalpha c = (c \<in> set ''ABCDEFGHIJKLMNOPQRSTUVWXYZabcdefghijklmnopqrstuvwxyz'')"

definition isalnum :: "char \<Rightarrow> bool" where
  "isalnum c = (isalpha c \<or> isdigit c)"

definition iscntrl :: "char \<Rightarrow> bool" where
  "iscntrl c = ((of_char c :: nat) < 32 \<or> (of_char c :: nat) = 127)"

text \<open>
  \<^verbatim>\<open>strchr(s, c) != nullptr\<close>: the terminating NUL of \<open>s\<close> is part of the string that is
  searched.
\<close>

definition strchr :: "string \<Rightarrow> char \<Rightarrow> bool" where
  "strchr s c = (c \<in> set s \<or> c = NUL)"

subsection \<open>Errors\<close>

text \<open>
  One constructor per \<^verbatim>\<open>FBEXCEPTION\<close>/\<^verbatim>\<open>ENFORCE\<close> of the source, holding the values the
  message is built from (a piece in a message is its text), and the two outcomes named
  above.
\<close>

datatype error =
    InvalidIdentifier string
  | UnterminatedComment string
  | InvalidNumber string
  | UnterminatedCharConstant string
  | UnterminatedStringConstant string
  | MisplacedBackslash string nat
  | InvalidCharacter char string nat
  | UnterminatedDirectiveMessage
  | UnrecognizedCharacter string nat
  | OutOfRange
  | OutsideMemory

subsection \<open>Munchers\<close>

text \<open>
  Each muncher's loop has the index \<^verbatim>\<open>i\<close> of the source. Its argument \<open>pc\<close> is the text
  of the piece, which only the messages use; \<open>m\<close> is memory from \<^verbatim>\<open>pc.data()\<close> on, and
  \<^verbatim>\<open>pc[i]\<close> is \<open>m ! i\<close>. The loop returns how many characters \<^verbatim>\<open>munchChars\<close> is then called
  with (and the line counter, where the muncher takes it by reference).
\<close>

function munchIdentifier_loop :: "string \<Rightarrow> string \<Rightarrow> nat \<Rightarrow> error + nat" where
  "munchIdentifier_loop pc m i =
     (if i < length m then
        (let c = m ! i in
         if \<not> isalnum c \<and> c \<noteq> CHR ''_'' \<and> c \<noteq> CHR ''$'' \<and> c \<noteq> CHR ''@'' then
           (if i > 0 then Inr i else Inl (InvalidIdentifier pc))
         else munchIdentifier_loop pc m (i + 1))
      else Inl OutsideMemory)"
  by pat_completeness auto
termination
  by (relation "measure (\<lambda>(pc, m, i). length m - i)") auto

function munchComment_loop :: "string \<Rightarrow> string \<Rightarrow> nat \<Rightarrow> nat \<Rightarrow> error + nat \<times> nat" where
  "munchComment_loop pc m i line =
     (if i < length m then
        (let c = m ! i in
         if c = NL then munchComment_loop pc m (i + 1) (line + 1)
         else if c = CHR ''*'' then
           (if i + 1 < length m then
              (if m ! (i + 1) = CHR ''/'' then Inr (i + 2, line)
               else munchComment_loop pc m (i + 1) line)
            else Inl OutsideMemory)
         else if c = NUL then Inl (UnterminatedComment pc)
         else munchComment_loop pc m (i + 1) line)
      else Inl OutsideMemory)"
  by pat_completeness auto
termination
  by (relation "measure (\<lambda>(pc, m, i, line). length m - i)") auto

function munchSingleLineComment_loop ::
  "string \<Rightarrow> nat \<Rightarrow> nat \<Rightarrow> error + nat \<times> nat" where
  "munchSingleLineComment_loop m i line =
     (if i < length m then
        (let c = m ! i in
         if c = NL then
           (if i > 0 \<and> m ! (i - 1) = BACKSLASH
            then munchSingleLineComment_loop m (i + 1) (line + 1)
            else Inr (i + 1, line + 1))
         else if c = NUL then Inr (i, line)
         else munchSingleLineComment_loop m (i + 1) line)
      else Inl OutsideMemory)"
  by pat_completeness auto
termination
  by (relation "measure (\<lambda>(m, i, line). length m - i)") auto

text \<open>The four flags of \<^verbatim>\<open>munchNumber\<close> are the last four arguments of its loop.\<close>

function munchNumber_loop ::
  "string \<Rightarrow> string \<Rightarrow> nat \<Rightarrow> bool \<Rightarrow> bool \<Rightarrow> bool \<Rightarrow> bool \<Rightarrow> error + nat" where
  "munchNumber_loop pc m i sawDot sawExp sawX sawSuffix =
     (if i < length m then
        (let c = m ! i in
         if c = CHR ''.'' \<and> \<not> sawDot \<and> \<not> sawExp \<and> \<not> sawSuffix then
           munchNumber_loop pc m (i + 1) True sawExp sawX sawSuffix
         else if isdigit c then
           munchNumber_loop pc m (i + 1) sawDot sawExp sawX sawSuffix
         else if sawX \<and> \<not> sawExp \<and> c \<noteq> NUL \<and> strchr ''AaBbCcDdEeFf'' c then
           munchNumber_loop pc m (i + 1) sawDot sawExp sawX sawSuffix
         else if c = CHR ''+'' \<or> c = CHR ''-'' then
           (if i > 0 \<and> \<not> strchr ''EePp'' (m ! (i - 1)) then Inr i
            else munchNumber_loop pc m (i + 1) sawDot sawExp sawX sawSuffix)
         else if \<not> sawExp \<and> \<not> sawSuffix \<and> \<not> sawX \<and> (c = CHR ''e'' \<or> c = CHR ''E'') then
           munchNumber_loop pc m (i + 1) sawDot True sawX sawSuffix
         else if sawX \<and> \<not> sawExp \<and> \<not> sawSuffix \<and> (c = CHR ''p'' \<or> c = CHR ''P'') then
           munchNumber_loop pc m (i + 1) sawDot True sawX sawSuffix
         else if (c = CHR ''x'' \<or> c = CHR ''X'') \<and> i = 1 \<and> m ! 0 = CHR ''0'' then
           munchNumber_loop pc m (i + 1) sawDot sawExp True sawSuffix
         else if c \<noteq> NUL \<and> strchr ''FfLlUu'' c then
           munchNumber_loop pc m (i + 1) sawDot sawExp sawX True
         else
           (if i > 0 then Inr i else Inl (InvalidNumber pc)))
      else Inl OutsideMemory)"
  by pat_completeness auto
termination
  by (relation "measure (\<lambda>(pc, m, i, sawDot, sawExp, sawX, sawSuffix). length m - i)") auto

text \<open>
  \<^verbatim>\<open>munchCharLiteral\<close> and \<^verbatim>\<open>munchString\<close> are the same loop, with the delimiter \<open>q\<close> and
  the message of the \<^verbatim>\<open>ENFORCE\<close> exchanged. The delimiter is tested first, then the
  backslash, which skips the character after it whatever it is, then the end of input.
\<close>

function munchLiteral_loop ::
  "char \<Rightarrow> (string \<Rightarrow> error) \<Rightarrow> string \<Rightarrow> string \<Rightarrow> nat \<Rightarrow> nat \<Rightarrow> error + nat \<times> nat" where
  "munchLiteral_loop q unterminated pc m i line =
     (if i < length m then
        (let c = m ! i in
         if c = q then Inr (i + 1, line)
         else if c = BACKSLASH then
           (if i + 1 < length m then
              munchLiteral_loop q unterminated pc m (i + 2)
                (if m ! (i + 1) = NL then line + 1 else line)
            else Inl OutsideMemory)
         else if c = NUL then Inl (unterminated pc)
         else munchLiteral_loop q unterminated pc m (i + 1) line)
      else Inl OutsideMemory)"
  by pat_completeness auto
termination
  by (relation "measure (\<lambda>(q, unterminated, pc, m, i, line). length m - i)") auto

function munchSpaces_loop :: "string \<Rightarrow> nat \<Rightarrow> error + nat" where
  "munchSpaces_loop m i =
     (if i < length m then
        (if m ! i = CHR '' '' \<or> m ! i = TAB then munchSpaces_loop m (i + 1) else Inr i)
      else Inl OutsideMemory)"
  by pat_completeness auto
termination
  by (relation "measure (\<lambda>(m, i). length m - i)") auto

text \<open>The equations of the loops are unfolded by hand, one iteration at a time.\<close>

declare munchIdentifier_loop.simps [simp del]
declare munchComment_loop.simps [simp del]
declare munchSingleLineComment_loop.simps [simp del]
declare munchNumber_loop.simps [simp del]
declare munchLiteral_loop.simps [simp del]
declare munchSpaces_loop.simps [simp del]

subsection \<open>Pieces, tokens and the dispatch tables\<close>

text \<open>
  A \<^verbatim>\<open>StringPiece\<close> is a view into memory: where it begins and how many characters it
  has. \<open>str mem p\<close> is the text that the piece \<open>p\<close> shows of the memory \<open>mem\<close>, and
  \<open>data mem p\<close> is memory from \<^verbatim>\<open>p.data()\<close> on, which \<^verbatim>\<open>p[i]\<close> reads.
\<close>

record StringPiece =
  sp_begin :: nat
  sp_size :: nat

definition str :: "string \<Rightarrow> StringPiece \<Rightarrow> string" where
  "str mem p = take (sp_size p) (drop (sp_begin p) mem)"

definition data :: "string \<Rightarrow> StringPiece \<Rightarrow> string" where
  "data mem p = drop (sp_begin p) mem"

text \<open>
  The enumerators that Tokenizer.cpp names. The header that declares \<^verbatim>\<open>TokenType\<close> is not
  part of the sources at hand, so every other enumerator (the operators of the dispatch
  tables and the keywords) is \<open>TK_HEADER\<close> with its spelling.
\<close>

datatype TokenType =
    TK_EOF | TK_IDENTIFIER | TK_NUMBER | TK_CHAR_LITERAL | TK_STRING_LITERAL
  | TK_DIVIDE | TK_DIVIDE_ASSIGN
  | TK_MINUS | TK_DECREMENT | TK_MINUS_ASSIGN | TK_ARROW | TK_ARROW_STAR
  | TK_DOT | TK_DOT_STAR | TK_ELLIPSIS
  | TK_HASHLINE | TK_ERROR | TK_INCLUDE | TK_IFDEF | TK_IFNDEF | TK_POUNDIF | TK_UNDEF
  | TK_POUNDELSE | TK_ENDIF | TK_DEFINE | TK_PRAGMA | TK_DOUBLEPOUND | TK_POUND
  | TK_HEADER string

text \<open>
  Modelled from the spec: the \<^verbatim>\<open>Token\<close> structure of the absent Tokenizer.h, built by
  \<^verbatim>\<open>Token(type, value, file, line, preTokenPtr, preTokenLen)\<close>, with the spec's names for
  its parts. The leading trivia is the span of \<^verbatim>\<open>preTokenLen\<close> characters at
  \<^verbatim>\<open>preTokenPtr\<close>; lexeme and trivia are views into the caller's buffer.
\<close>

record Token =
  kind :: TokenType
  lexeme :: StringPiece
  tok_file :: string
  tok_line :: nat
  leading_trivia :: StringPiece

text \<open>
  The macros of the absent Tokenizer.h that Tokenizer.cpp expands, as parameters: each is
  the list of the argument tuples the macro applies its argument to, in order.
\<close>

record tables =
  CPPLINT_FORALL_ONE_CHAR_TOKENS :: "(char \<times> TokenType) list"
  CPPLINT_FORALL_ONE_OR_TWO_CHAR_TOKENS :: "(char \<times> TokenType \<times> char \<times> TokenType) list"
  CPPLINT_FORALL_ONE_OR_TWO_CHAR_TOKENS2 ::
    "(char \<times> TokenType \<times> char \<times> TokenType \<times> char \<times> TokenType) list"
  CPPLINT_FORALL_ONE_TO_THREE_CHAR_TOKENS ::
    "(char \<times> TokenType \<times> char \<times> TokenType \<times> char \<times> TokenType \<times> char \<times> TokenType) list"
  CPPLINT_FORALL_KEYWORDS :: "(string \<times> TokenType) list"

text \<open>\<^verbatim>\<open>result[s] = tk\<close> for every keyword in turn: a later entry replaces an earlier one.\<close>

definition initializeKeywords :: "tables \<Rightarrow> string \<rightharpoonup> TokenType" where
  "initializeKeywords tb =
     foldl (\<lambda>result (s, tk). result(s \<mapsto> tk)) Map.empty (CPPLINT_FORALL_KEYWORDS tb)"

text \<open>The global \<^verbatim>\<open>keywords\<close> of the source (the name is reserved in Isabelle).\<close>

definition keywords_map :: "tables \<Rightarrow> string \<rightharpoonup> TokenType" where
  "keywords_map tb = initializeKeywords tb"

subsection \<open>The scanning driver\<close>

text \<open>
  \<^verbatim>\<open>munchChars\<close> returns the eaten piece and the advanced \<^verbatim>\<open>pc\<close>; folly's \<^verbatim>\<open>advance\<close> throws
  \<^verbatim>\<open>std::out_of_range\<close> when asked for more than the piece has.
\<close>

definition sp_advance :: "StringPiece \<Rightarrow> nat \<Rightarrow> error + StringPiece" where
  "sp_advance p n =
     (if n \<le> sp_size p then Inr \<lparr>sp_begin = sp_begin p + n, sp_size = sp_size p - n\<rparr>
      else Inl OutOfRange)"

definition munchChars :: "StringPiece \<Rightarrow> nat \<Rightarrow> error + StringPiece \<times> StringPiece" where
  "munchChars p howMany =
     (if howMany \<le> sp_size p then
        Inr (\<lparr>sp_begin = sp_begin p, sp_size = howMany\<rparr>,
             \<lparr>sp_begin = sp_begin p + howMany, sp_size = sp_size p - howMany\<rparr>)
      else Inl OutOfRange)"

definition munchIdentifier :: "string \<Rightarrow> StringPiece \<Rightarrow> error + StringPiece \<times> StringPiece" where
  "munchIdentifier mem p =
     (case munchIdentifier_loop (str mem p) (data mem p) 0 of
        Inl e \<Rightarrow> Inl e
      | Inr i \<Rightarrow> munchChars p i)"

definition munchNumber :: "string \<Rightarrow> StringPiece \<Rightarrow> error + StringPiece \<times> StringPiece" where
  "munchNumber mem p =
     (case munchNumber_loop (str mem p) (data mem p) 0 False False False False of
        Inl e \<Rightarrow> Inl e
      | Inr i \<Rightarrow> munchChars p i)"

definition munchSpaces :: "string \<Rightarrow> StringPiece \<Rightarrow> error + StringPiece \<times> StringPiece" where
  "munchSpaces mem p =
     (case munchSpaces_loop (data mem p) 0 of
        Inl e \<Rightarrow> Inl e
      | Inr i \<Rightarrow> munchChars p i)"

text \<open>The munchers that take \<^verbatim>\<open>line\<close> by reference also return its new value.\<close>

definition with_line ::
  "StringPiece \<Rightarrow> error + nat \<times> nat \<Rightarrow> error + StringPiece \<times> StringPiece \<times> nat" where
  "with_line p r =
     (case r of
        Inl e \<Rightarrow> Inl e
      | Inr (i, line') \<Rightarrow>
          (case munchChars p i of
             Inl e \<Rightarrow> Inl e
           | Inr (eaten, p') \<Rightarrow> Inr (eaten, p', line')))"

definition munchComment ::
  "string \<Rightarrow> StringPiece \<Rightarrow> nat \<Rightarrow> error + StringPiece \<times> StringPiece \<times> nat" where
  "munchComment mem p line = with_line p (munchComment_loop (str mem p) (data mem p) 2 line)"

definition munchSingleLineComment ::
  "string \<Rightarrow> StringPiece \<Rightarrow> nat \<Rightarrow> error + StringPiece \<times> StringPiece \<times> nat" where
  "munchSingleLineComment mem p line =
     with_line p (munchSingleLineComment_loop (data mem p) 2 line)"

definition munchCharLiteral ::
  "string \<Rightarrow> StringPiece \<Rightarrow> nat \<Rightarrow> error + StringPiece \<times> StringPiece \<times> nat" where
  "munchCharLiteral mem p line =
     with_line p (munchLiteral_loop SQUOTE UnterminatedCharConstant (str mem p) (data mem p) 1 line)"

definition munchString ::
  "string \<Rightarrow> StringPiece \<Rightarrow> nat \<Rightarrow> error + StringPiece \<times> StringPiece \<times> nat" where
  "munchString mem p line =
     with_line p (munchLiteral_loop DQUOTE UnterminatedStringConstant (str mem p) (data mem p) 1 line)"

text \<open>
  The variables of \<^verbatim>\<open>tokenize\<close> that live across iterations of its loop. \<^verbatim>\<open>preTokenPtr\<close> is
  an offset into the buffer.
\<close>

record state =
  pc :: StringPiece
  line :: nat
  "output" :: "Token list"
  preTokenPtr :: nat
  preTokenLen :: nat

text \<open>
  One iteration of \<^verbatim>\<open>while (1)\<close> throws, returns from \<^verbatim>\<open>tokenize\<close>, or reaches a
  \<^verbatim>\<open>break\<close> and goes round again.
\<close>

datatype step_result = Throw error | Return state | Continue state

text \<open>
  \<^verbatim>\<open>pc[i]\<close> in the driver, with the rest of the computation as \<open>k\<close>: \<open>m\<close> is memory from
  \<^verbatim>\<open>pc.data()\<close> on.
\<close>

definition rd :: "string \<Rightarrow> nat \<Rightarrow> (char \<Rightarrow> step_result) \<Rightarrow> step_result" where
  "rd m i k = (if i < length m then k (m ! i) else Throw OutsideMemory)"

definition mkToken :: "string \<Rightarrow> state \<Rightarrow> TokenType \<Rightarrow> StringPiece \<Rightarrow> Token" where
  "mkToken file s t v =
     \<lparr>kind = t, lexeme = v, tok_file = file, tok_line = line s,
      leading_trivia = \<lparr>sp_begin = preTokenPtr s, sp_size = preTokenLen s\<rparr>\<rparr>"

text \<open>
  The label \<^verbatim>\<open>INSERT_TOKEN\<close>: the only place where \<^verbatim>\<open>preTokenPtr\<close> and \<^verbatim>\<open>preTokenLen\<close>
  are set anew.
\<close>

definition INSERT_TOKEN :: "string \<Rightarrow> state \<Rightarrow> TokenType \<Rightarrow> nat \<Rightarrow> step_result" where
  "INSERT_TOKEN file s t tokenLen =
     (case munchChars (pc s) tokenLen of
        Inl e \<Rightarrow> Throw e
      | Inr (eaten, pc') \<Rightarrow>
          Continue (s\<lparr>pc := pc',
                      output := output s @ [mkToken file s t eaten],
                      preTokenPtr := sp_begin pc',
                      preTokenLen := 0\<rparr>))"

text \<open>
  The tokens that are pushed where they are munched (numbers, literals, words): the
  token is built after the muncher has moved \<^verbatim>\<open>pc\<close> and \<^verbatim>\<open>line\<close>, and the \<^verbatim>\<open>break\<close> that
  follows leaves \<^verbatim>\<open>preTokenPtr\<close> and \<^verbatim>\<open>preTokenLen\<close> as they are.
\<close>

definition push_token ::
  "string \<Rightarrow> state \<Rightarrow> TokenType \<Rightarrow> StringPiece \<Rightarrow> StringPiece \<Rightarrow> nat \<Rightarrow> step_result" where
  "push_token file s t eaten pc' line' =
     (let s' = s\<lparr>pc := pc', line := line'\<rparr>
      in Continue (s'\<lparr>output := output s' @ [mkToken file s' t eaten]\<rparr>))"

text \<open>Comments, white space and newlines: \<^verbatim>\<open>preTokenLen\<close> grows by what was consumed.\<close>

definition skip :: "state \<Rightarrow> StringPiece \<Rightarrow> nat \<Rightarrow> nat \<Rightarrow> step_result" where
  "skip s pc' line' n =
     Continue (s\<lparr>pc := pc', line := line', preTokenLen := preTokenLen s + n\<rparr>)"

text \<open>\<^verbatim>\<open>pc.advance(n)\<close> in the driver, with \<^verbatim>\<open>preTokenLen += n\<close>.\<close>

definition consume :: "state \<Rightarrow> nat \<Rightarrow> nat \<Rightarrow> step_result" where
  "consume s n line' =
     (case sp_advance (pc s) n of
        Inl e \<Rightarrow> Throw e
      | Inr pc' \<Rightarrow> skip s pc' line' n)"

text \<open>The four case-introducing macros of the \<^verbatim>\<open>switch\<close>.\<close>

definition one_or_two ::
  "string \<Rightarrow> state \<Rightarrow> string \<Rightarrow> TokenType \<times> char \<times> TokenType \<Rightarrow> step_result" where
  "one_or_two file s m e =
     (case e of (t1, c2, t2) \<Rightarrow>
        rd m 1 (\<lambda>x1.
          if x1 = c2 then INSERT_TOKEN file s t2 2
          else INSERT_TOKEN file s t1 1))"

definition one_or_two2 ::
  "string \<Rightarrow> state \<Rightarrow> string \<Rightarrow> TokenType \<times> char \<times> TokenType \<times> char \<times> TokenType
     \<Rightarrow> step_result" where
  "one_or_two2 file s m e =
     (case e of (t1, c2, t2, c3, t3) \<Rightarrow>
        rd m 1 (\<lambda>x1.
          if x1 = c2 then INSERT_TOKEN file s t2 2
          else if x1 = c3 then INSERT_TOKEN file s t3 2
          else INSERT_TOKEN file s t1 1))"

definition one_to_three ::
  "string \<Rightarrow> state \<Rightarrow> string
     \<Rightarrow> TokenType \<times> char \<times> TokenType \<times> char \<times> TokenType \<times> char \<times> TokenType
     \<Rightarrow> step_result" where
  "one_to_three file s m e =
     (case e of (t1, c2, t2, c3, t3, c4, t4) \<Rightarrow>
        rd m 1 (\<lambda>x1.
          if x1 = c2 then INSERT_TOKEN file s t2 2
          else if x1 = c3 then
            rd m 2 (\<lambda>x2.
              if x2 = c4 then INSERT_TOKEN file s t4 3
              else INSERT_TOKEN file s t3 2)
          else INSERT_TOKEN file s t1 1))"

text \<open>
  \<^verbatim>\<open>size_t\<close> is taken to have 64 bits. Only \<^verbatim>\<open>tokenLen\<close> can wrap around: \<^verbatim>\<open>qfind\<close> returns
  \<^verbatim>\<open>npos\<close>, the largest \<^verbatim>\<open>size_t\<close>, when the character is absent, and the driver adds
  that to \<^verbatim>\<open>tokenLen\<close>. The other counters are bounded by the size of the buffer.
\<close>

definition npos :: nat where
  "npos = 2 ^ 64 - 1"

definition size_t_add :: "nat \<Rightarrow> nat \<Rightarrow> nat" where
  "size_t_add x y = (x + y) mod 2 ^ 64"

definition qfind :: "string \<Rightarrow> char \<Rightarrow> nat" where
  "qfind m c = (if c \<in> set m then length (takeWhile (\<lambda>x. x \<noteq> c) m) else npos)"

definition startsWith :: "string \<Rightarrow> string \<Rightarrow> bool" where
  "startsWith m p = (take (length p) m = p)"

text \<open>\<^verbatim>\<open>case '#'\<close>.\<close>

definition directive :: "string \<Rightarrow> string \<Rightarrow> state \<Rightarrow> step_result" where
  "directive mem file s =
     (case sp_advance (pc s) 1 of
        Inl e \<Rightarrow> Throw e
      | Inr pc1 \<Rightarrow>
     (case munchSpaces mem pc1 of
        Inl e \<Rightarrow> Throw e
      | Inr (spaces, pc1') \<Rightarrow>
          (let tokenLen = size_t_add 1 (sp_size spaces);
               cs1 = str mem pc1'
           in
           if startsWith cs1 ''line'' then
             INSERT_TOKEN file s TK_HASHLINE (size_t_add tokenLen (qfind cs1 NL))
           else if startsWith cs1 ''warning'' \<or> startsWith cs1 ''error'' then
             (let tokenLen' = size_t_add tokenLen (qfind cs1 NL)
              in if tokenLen' > 0 then INSERT_TOKEN file s TK_ERROR tokenLen'
                 else Throw UnterminatedDirectiveMessage)
           else if startsWith cs1 ''include'' then
             INSERT_TOKEN file s TK_INCLUDE (size_t_add tokenLen (length ''include''))
           else if startsWith cs1 ''ifdef'' then
             INSERT_TOKEN file s TK_IFDEF (size_t_add tokenLen (length ''ifdef''))
           else if startsWith cs1 ''ifndef'' then
             INSERT_TOKEN file s TK_IFNDEF (size_t_add tokenLen (length ''ifndef''))
           else if startsWith cs1 ''if'' then
             INSERT_TOKEN file s TK_POUNDIF (size_t_add tokenLen (length ''if''))
           else if startsWith cs1 ''undef'' then
             INSERT_TOKEN file s TK_UNDEF (size_t_add tokenLen (length ''undef''))
           else if startsWith cs1 ''else'' then
             INSERT_TOKEN file s TK_POUNDELSE (size_t_add tokenLen (length ''else''))
           else if startsWith cs1 ''endif'' then
             INSERT_TOKEN file s TK_ENDIF (size_t_add tokenLen (length ''endif''))
           else if startsWith cs1 ''define'' then
             INSERT_TOKEN file s TK_DEFINE (size_t_add tokenLen (length ''define''))
           else if startsWith cs1 ''pragma'' then
             INSERT_TOKEN file s TK_PRAGMA (size_t_add tokenLen (length ''pragma''))
           else if startsWith cs1 ''#'' then
             INSERT_TOKEN file s TK_DOUBLEPOUND (size_t_add tokenLen (length ''##''))
           else
             INSERT_TOKEN file s TK_POUND (size_t_add tokenLen 1))))"

text \<open>\<^verbatim>\<open>case '/'\<close>.\<close>

definition slash :: "string \<Rightarrow> string \<Rightarrow> state \<Rightarrow> string \<Rightarrow> step_result" where
  "slash mem file s m =
     rd m 1 (\<lambda>x1.
       if x1 = CHR ''*'' then
         (case munchComment mem (pc s) (line s) of
            Inl e \<Rightarrow> Throw e
          | Inr (eaten, pc', line') \<Rightarrow> skip s pc' line' (sp_size eaten))
       else if x1 = CHR ''/'' then
         (case munchSingleLineComment mem (pc s) (line s) of
            Inl e \<Rightarrow> Throw e
          | Inr (eaten, pc', line') \<Rightarrow> skip s pc' line' (sp_size eaten))
       else if x1 = CHR ''='' then INSERT_TOKEN file s TK_DIVIDE_ASSIGN 2
       else INSERT_TOKEN file s TK_DIVIDE 1)"

text \<open>\<^verbatim>\<open>case '-'\<close>.\<close>

definition minus :: "string \<Rightarrow> state \<Rightarrow> string \<Rightarrow> step_result" where
  "minus file s m =
     rd m 1 (\<lambda>x1.
       if x1 = CHR ''-'' then INSERT_TOKEN file s TK_DECREMENT 2
       else if x1 = CHR ''='' then INSERT_TOKEN file s TK_MINUS_ASSIGN 2
       else if x1 = CHR ''>'' then
         rd m 2 (\<lambda>x2.
           if x2 = CHR ''*'' then INSERT_TOKEN file s TK_ARROW_STAR 3
           else INSERT_TOKEN file s TK_ARROW 2)
       else INSERT_TOKEN file s TK_MINUS 1)"

text \<open>The label \<^verbatim>\<open>ITS_A_NUMBER\<close>.\<close>

definition ITS_A_NUMBER :: "string \<Rightarrow> string \<Rightarrow> state \<Rightarrow> step_result" where
  "ITS_A_NUMBER mem file s =
     (case munchNumber mem (pc s) of
        Inl e \<Rightarrow> Throw e
      | Inr (symbol, pc') \<Rightarrow> push_token file s TK_NUMBER symbol pc' (line s))"

text \<open>\<^verbatim>\<open>case '.'\<close>.\<close>

definition dot :: "string \<Rightarrow> string \<Rightarrow> state \<Rightarrow> string \<Rightarrow> step_result" where
  "dot mem file s m =
     rd m 1 (\<lambda>x1.
       if isdigit x1 then ITS_A_NUMBER mem file s
       else if x1 = CHR ''*'' then INSERT_TOKEN file s TK_DOT_STAR 2
       else if x1 = CHR ''.'' then
         rd m 2 (\<lambda>x2.
           if x2 = CHR ''.'' then INSERT_TOKEN file s TK_ELLIPSIS 3
           else INSERT_TOKEN file s TK_DOT 1)
       else INSERT_TOKEN file s TK_DOT 1)"

text \<open>The \<^verbatim>\<open>default\<close> label.\<close>

definition default_case :: "tables \<Rightarrow> string \<Rightarrow> string \<Rightarrow> state \<Rightarrow> char \<Rightarrow> step_result" where
  "default_case tb mem file s c =
     (if iscntrl c then consume s 1 (line s)
      else if isalpha c \<or> c = CHR ''_'' \<or> c = CHR ''$'' \<or> c = CHR ''@'' then
        (case munchIdentifier mem (pc s) of
           Inl e \<Rightarrow> Throw e
         | Inr (symbol, pc') \<Rightarrow>
             (case keywords_map tb (str mem symbol) of
                Some k \<Rightarrow> push_token file s k symbol pc' (line s)
              | None \<Rightarrow> push_token file s TK_IDENTIFIER symbol pc' (line s)))
      else Throw (UnrecognizedCharacter file (line s)))"

text \<open>The case labels that the \<^verbatim>\<open>switch\<close> spells out, in the order of the source.\<close>

definition explicit_cases ::
  "tables \<Rightarrow> string \<Rightarrow> string \<Rightarrow> state \<Rightarrow> string \<Rightarrow> char \<Rightarrow> step_result" where
  "explicit_cases tb mem file s m c =
     (if c = CHR ''/'' then slash mem file s m
      else if c = BACKSLASH then
        rd m 1 (\<lambda>x1.
          if x1 = NL \<or> x1 = CR then consume s 2 (line s + 1)
          else Throw (MisplacedBackslash file (line s)))
      else if c = NL then consume s 1 (line s + 1)
      else if c = CR then consume s 1 (line s)
      else if c = CHR ''-'' then minus file s m
      else if c = CHR '' '' \<or> c = TAB then
        (case munchSpaces mem (pc s) of
           Inl e \<Rightarrow> Throw e
         | Inr (eaten, pc') \<Rightarrow> skip s pc' (line s) (sp_size eaten))
      else if c = NUL then
        Return (s\<lparr>output := output s @ [mkToken file s TK_EOF (pc s)]\<rparr>)
      else if c = BACKQUOTE then Throw (InvalidCharacter c file (line s))
      else if c \<in> set ''0123456789'' then ITS_A_NUMBER mem file s
      else if c = CHR ''.'' then dot mem file s m
      else if c = SQUOTE then
        (case munchCharLiteral mem (pc s) (line s) of
           Inl e \<Rightarrow> Throw e
         | Inr (charLit, pc', line') \<Rightarrow> push_token file s TK_CHAR_LITERAL charLit pc' line')
      else if c = DQUOTE then
        (case munchString mem (pc s) (line s) of
           Inl e \<Rightarrow> Throw e
         | Inr (str', pc', line') \<Rightarrow> push_token file s TK_STRING_LITERAL str' pc' line')
      else if c = CHR ''#'' then directive mem file s
      else default_case tb mem file s c)"

text \<open>
  One iteration of the loop: \<^verbatim>\<open>pc.front()\<close>, then the \<^verbatim>\<open>switch\<close>. The cases that the four
  table macros introduce come first, as in the source; C++ admits no case label twice, so
  a character of the tables is none of the spelled-out labels.
\<close>

definition step :: "tables \<Rightarrow> string \<Rightarrow> string \<Rightarrow> state \<Rightarrow> step_result" where
  "step tb mem file s =
     (let m = data mem (pc s) in
      rd m 0 (\<lambda>c.
        case map_of (CPPLINT_FORALL_ONE_CHAR_TOKENS tb) c of
          Some t0 \<Rightarrow> INSERT_TOKEN file s t0 1
        | None \<Rightarrow>
       (case map_of (CPPLINT_FORALL_ONE_OR_TWO_CHAR_TOKENS tb) c of
          Some e \<Rightarrow> one_or_two file s m e
        | None \<Rightarrow>
       (case map_of (CPPLINT_FORALL_ONE_OR_TWO_CHAR_TOKENS2 tb) c of
          Some e \<Rightarrow> one_or_two2 file s m e
        | None \<Rightarrow>
       (case map_of (CPPLINT_FORALL_ONE_TO_THREE_CHAR_TOKENS tb) c of
          Some e \<Rightarrow> one_to_three file s m e
        | None \<Rightarrow> explicit_cases tb mem file s m c)))))"

text \<open>
  The loop of \<^verbatim>\<open>tokenize\<close>. It need not end (see \<open>tokenize_hashline_diverges\<close> below), so a
  run that does not come back is \<open>None\<close>. A run that comes back gives the exception, if
  one was thrown, and what the vector \<^verbatim>\<open>output\<close> of the caller then holds. Every
  \<^verbatim>\<open>throw\<close> of an iteration comes before its \<^verbatim>\<open>push_back\<close>.
\<close>

partial_function (option) tokenize_loop ::
  "tables \<Rightarrow> string \<Rightarrow> string \<Rightarrow> state \<Rightarrow> (error option \<times> Token list) option" where
  "tokenize_loop tb mem file s =
     (case step tb mem file s of
        Throw e \<Rightarrow> Some (Some e, output s)
      | Return s' \<Rightarrow> Some (None, output s')
      | Continue s' \<Rightarrow> tokenize_loop tb mem file s')"

text \<open>
  \<^verbatim>\<open>tokenize(input, initialFilename, output)\<close>: the vector is emptied, and \<^verbatim>\<open>pc\<close> is the
  input with the NUL that ends \<^verbatim>\<open>c_str()\<close>. \<open>beyond\<close> is what memory holds after that NUL.
\<close>

definition initial_state :: "string \<Rightarrow> state" where
  "initial_state input =
     \<lparr>pc = \<lparr>sp_begin = 0, sp_size = length input + 1\<rparr>, line = 1, output = [],
      preTokenPtr = 0, preTokenLen = 0\<rparr>"

definition tokenize ::
  "tables \<Rightarrow> string \<Rightarrow> string \<Rightarrow> string \<Rightarrow> Token list
     \<Rightarrow> (error option \<times> Token list) option" where
  "tokenize tb beyond input initialFilename output0 =
     tokenize_loop tb (input @ [NUL] @ beyond) initialFilename (initial_state input)"

text \<open>
  Modelled from the spec: the contents of the table macros of the absent Tokenizer.h, as
  far as the spec names them. Tier 1 has "comma, semicolon, parentheses"; tier 2 has
  "\<^verbatim>\<open>=\<close> alone vs \<^verbatim>\<open>==\<close>; \<^verbatim>\<open>&\<close> alone vs \<^verbatim>\<open>&&\<close>"; \<^verbatim>\<open><\<close> is in tier 3, since "input
  \<^verbatim>\<open><<=\<close> yields one compound-assignment token"; the keyword table maps a reserved word to
  its kind ("\<^verbatim>\<open>virtual\<close> yields the reserved-keyword kind"), and \<^verbatim>\<open>int\<close> is a word the spec
  has tokenized. These tables are the concrete instance at which the general theorems
  below are run; the theorems themselves hold for any tables.
\<close>

definition spec_tables :: tables where
  "spec_tables =
     \<lparr>CPPLINT_FORALL_ONE_CHAR_TOKENS =
        [(CHR '','', TK_HEADER ''TK_COMMA''), (CHR '';'', TK_HEADER ''TK_SEMICOLON''),
         (CHR ''('', TK_HEADER ''TK_LPAREN''), (CHR '')'', TK_HEADER ''TK_RPAREN'')],
      CPPLINT_FORALL_ONE_OR_TWO_CHAR_TOKENS =
        [(CHR ''='', TK_HEADER ''TK_ASSIGN'', CHR ''='', TK_HEADER ''TK_EQUAL_TO''),
         (CHR ''&'', TK_HEADER ''TK_AMPERSAND'', CHR ''&'', TK_HEADER ''TK_LOGICAL_AND'')],
      CPPLINT_FORALL_ONE_OR_TWO_CHAR_TOKENS2 = [],
      CPPLINT_FORALL_ONE_TO_THREE_CHAR_TOKENS =
        [(CHR ''<'', TK_HEADER ''TK_LESS'', CHR ''='', TK_HEADER ''TK_LESS_EQUAL'',
          CHR ''<'', TK_HEADER ''TK_LSHIFT'', CHR ''='', TK_HEADER ''TK_LSHIFT_ASSIGN'')],
      CPPLINT_FORALL_KEYWORDS =
        [(''virtual'', TK_HEADER ''TK_VIRTUAL''), (''int'', TK_HEADER ''TK_INT'')]\<rparr>"

subsection \<open>Notions that the statements below use\<close>

text \<open>The text of a token and its kind; the text that a token sequence stands for.\<close>

definition lexemes :: "string \<Rightarrow> Token list \<Rightarrow> (TokenType \<times> string) list" where
  "lexemes input toks = map (\<lambda>t. (kind t, str (input @ [NUL]) (lexeme t))) toks"

definition reconstruct :: "string \<Rightarrow> Token list \<Rightarrow> string" where
  "reconstruct input toks =
     concat (map (\<lambda>t. str (input @ [NUL]) (leading_trivia t) @ str (input @ [NUL]) (lexeme t))
       toks)"

text \<open>
  What the tables hold: the token kinds (keywords included), the characters that begin a
  table token, and the characters that continue one.
\<close>

definition table_kinds :: "tables \<Rightarrow> TokenType list" where
  "table_kinds tb =
     map snd (CPPLINT_FORALL_ONE_CHAR_TOKENS tb) @
     concat (map (\<lambda>(c1, t1, c2, t2). [t1, t2]) (CPPLINT_FORALL_ONE_OR_TWO_CHAR_TOKENS tb)) @
     concat (map (\<lambda>(c1, t1, c2, t2, c3, t3). [t1, t2, t3])
       (CPPLINT_FORALL_ONE_OR_TWO_CHAR_TOKENS2 tb)) @
     concat (map (\<lambda>(c1, t1, c2, t2, c3, t3, c4, t4). [t1, t2, t3, t4])
       (CPPLINT_FORALL_ONE_TO_THREE_CHAR_TOKENS tb)) @
     map snd (CPPLINT_FORALL_KEYWORDS tb)"

definition table_leads :: "tables \<Rightarrow> char list" where
  "table_leads tb =
     map fst (CPPLINT_FORALL_ONE_CHAR_TOKENS tb) @
     map fst (CPPLINT_FORALL_ONE_OR_TWO_CHAR_TOKENS tb) @
     map fst (CPPLINT_FORALL_ONE_OR_TWO_CHAR_TOKENS2 tb) @
     map fst (CPPLINT_FORALL_ONE_TO_THREE_CHAR_TOKENS tb)"

definition table_conts :: "tables \<Rightarrow> char list" where
  "table_conts tb =
     map (\<lambda>(c1, t1, c2, t2). c2) (CPPLINT_FORALL_ONE_OR_TWO_CHAR_TOKENS tb) @
     concat (map (\<lambda>(c1, t1, c2, t2, c3, t3). [c2, c3])
       (CPPLINT_FORALL_ONE_OR_TWO_CHAR_TOKENS2 tb)) @
     concat (map (\<lambda>(c1, t1, c2, t2, c3, t3, c4, t4). [c2, c3, c4])
       (CPPLINT_FORALL_ONE_TO_THREE_CHAR_TOKENS tb))"

text \<open>The characters that the \<^verbatim>\<open>switch\<close> has a spelled-out \<^verbatim>\<open>case\<close> label for.\<close>

definition case_labels :: "char list" where
  "case_labels =
     [CHR ''/'', BACKSLASH, NL, CR, CHR ''-'', CHR '' '', TAB, NUL, BACKQUOTE] @
     ''0123456789'' @ [CHR ''.'', SQUOTE, DQUOTE, CHR ''#'']"

text \<open>
  What one iteration that goes on to the next does to the state: \<^verbatim>\<open>pc\<close> moves forward
  inside its piece, \<^verbatim>\<open>line\<close> does not go down, and at most one token is pushed, whose line
  lies between the two values of \<^verbatim>\<open>line\<close> and whose kind is \<^verbatim>\<open>TK_EOF\<close> only if a table
  says so.
\<close>

definition step_eff :: "tables \<Rightarrow> state \<Rightarrow> state \<Rightarrow> bool" where
  "step_eff tb s s' \<longleftrightarrow>
     (\<exists>n. n \<le> sp_size (pc s) \<and>
        pc s' = \<lparr>sp_begin = sp_begin (pc s) + n, sp_size = sp_size (pc s) - n\<rparr>) \<and>
     line s \<le> line s' \<and>
     (output s' = output s \<or>
      (\<exists>t. output s' = output s @ [t] \<and> line s \<le> tok_line t \<and> tok_line t \<le> line s' \<and>
         (kind t = TK_EOF \<longrightarrow> TK_EOF \<in> set (table_kinds tb))))"

text \<open>The file name and the line that the message of an exception shows, if any.\<close>

fun error_file :: "error \<Rightarrow> string option" where
  "error_file (MisplacedBackslash f l) = Some f"
| "error_file (InvalidCharacter c f l) = Some f"
| "error_file (UnrecognizedCharacter f l) = Some f"
| "error_file e = None"

fun error_line :: "error \<Rightarrow> nat option" where
  "error_line (MisplacedBackslash f l) = Some l"
| "error_line (InvalidCharacter c f l) = Some l"
| "error_line (UnrecognizedCharacter f l) = Some l"
| "error_line e = None"


text \<open>
  A comment body that holds \<^verbatim>\<open>*/\<close>; a literal body (the text after the opening delimiter)
  in which no delimiter closes the literal and no backslash is the last character: a
  backslash takes the next character with it.
\<close>

fun has_close :: "string \<Rightarrow> bool" where
  "has_close (x # y # cs) = ((x = CHR ''*'' \<and> y = CHR ''/'') \<or> has_close (y # cs))"
| "has_close cs = False"

fun unclosed :: "char \<Rightarrow> string \<Rightarrow> bool" where
  "unclosed q [] = True"
| "unclosed q (x # cs) =
     (x \<noteq> q \<and>
      (if x = BACKSLASH then (case cs of [] \<Rightarrow> False | y # cs' \<Rightarrow> unclosed q cs')
       else unclosed q cs))"

text \<open>The leading trivia and the lexeme of every token, as text.\<close>

definition pieces :: "string \<Rightarrow> Token list \<Rightarrow> (string \<times> string) list" where
  "pieces input toks =
     map (\<lambda>t. (str (input @ [NUL]) (leading_trivia t), str (input @ [NUL]) (lexeme t))) toks"

text \<open>
  The state at the head of the loop after \<open>n\<close> iterations that went round again, if the
  loop gets that far.
\<close>

fun iterations :: "tables \<Rightarrow> string \<Rightarrow> string \<Rightarrow> nat \<Rightarrow> state \<Rightarrow> state option" where
  "iterations tb mem fn 0 s = Some s"
| "iterations tb mem fn (Suc n) s =
     (case step tb mem fn s of
        Continue s' \<Rightarrow> iterations tb mem fn n s'
      | _ \<Rightarrow> None)"



text \<open>Every definition together, for running the tokenizer on a given input.\<close>

lemmas tokenizer_defs =
  tokenize_def initial_state_def step_def explicit_cases_def default_case_def
  dot_def ITS_A_NUMBER_def minus_def slash_def directive_def startsWith_def qfind_def
  size_t_add_def npos_def one_or_two_def one_or_two2_def one_to_three_def consume_def skip_def
  push_token_def INSERT_TOKEN_def mkToken_def rd_def munchString_def munchCharLiteral_def
  munchSingleLineComment_def munchComment_def with_line_def munchSpaces_def munchNumber_def
  munchIdentifier_def munchChars_def sp_advance_def keywords_map_def initializeKeywords_def
  str_def data_def strchr_def iscntrl_def isalnum_def isalpha_def isdigit_def spec_tables_def
  lexemes_def reconstruct_def pieces_def
  munchIdentifier_loop.simps munchComment_loop.simps munchSingleLineComment_loop.simps
  munchNumber_loop.simps munchLiteral_loop.simps munchSpaces_loop.simps tokenize_loop.simps

section \<open>Properties\<close>

subsection \<open>The loop and its invariants\<close>

lemma tokenize_loop_Throw:
  "step tb mem file s = Throw e \<Longrightarrow> tokenize_loop tb mem file s = Some (Some e, output s)"
  by (subst tokenize_loop.simps) simp

lemma tokenize_loop_Return:
  "step tb mem file s = Return s' \<Longrightarrow> tokenize_loop tb mem file s = Some (None, output s')"
  by (subst tokenize_loop.simps) simp

lemma tokenize_loop_Continue:
  "step tb mem file s = Continue s' \<Longrightarrow> tokenize_loop tb mem file s = tokenize_loop tb mem file s'"
  by (subst tokenize_loop.simps) simp

lemma tokenize_loop_invariant:
  assumes run: "tokenize_loop tb mem fn s = Some r"
    and init: "I s"
    and cont: "\<And>s s'. I s \<Longrightarrow> step tb mem fn s = Continue s' \<Longrightarrow> I s'"
    and thrw: "\<And>s e. I s \<Longrightarrow> step tb mem fn s = Throw e \<Longrightarrow> Q (Some e, output s)"
    and retn: "\<And>s s'. I s \<Longrightarrow> step tb mem fn s = Return s' \<Longrightarrow> Q (None, output s')"
  shows "Q r"
proof -
  have "tb = tb \<and> mem = mem \<and> fn = fn \<longrightarrow> I s \<longrightarrow> Q r"
  proof (rule tokenize_loop.raw_induct
      [where P = "\<lambda>tb' mem' fn' s r. tb' = tb \<and> mem' = mem \<and> fn' = fn \<longrightarrow> I s \<longrightarrow> Q r",
       OF _ run])
    fix loop tb' mem' fn' s r
    assume IH: "\<And>tb' mem' fn' s r. loop tb' mem' fn' s = Some r \<Longrightarrow>
                  tb' = tb \<and> mem' = mem \<and> fn' = fn \<longrightarrow> I s \<longrightarrow> Q r"
      and eq: "(case step tb' mem' fn' s of
                  Throw e \<Rightarrow> Some (Some e, output s)
                | Return s' \<Rightarrow> Some (None, output s')
                | Continue s' \<Rightarrow> loop tb' mem' fn' s') = Some r"
    show "tb' = tb \<and> mem' = mem \<and> fn' = fn \<longrightarrow> I s \<longrightarrow> Q r"
    proof (intro impI, elim conjE)
      assume same: "tb' = tb" "mem' = mem" "fn' = fn" and inv: "I s"
      show "Q r"
      proof (cases "step tb mem fn s")
        case (Throw e)
        with eq same have "r = (Some e, output s)" by simp
        with thrw [OF inv Throw] show ?thesis by simp
      next
        case (Return s')
        with eq same have "r = (None, output s')" by simp
        with retn [OF inv Return] show ?thesis by simp
      next
        case (Continue s')
        with eq same have "loop tb mem fn s' = Some r" by simp
        from IH [OF this] cont [OF inv Continue] show ?thesis by simp
      qed
    qed
  qed
  with init show ?thesis by simp
qed


lemma munchChars_Inr:
  "munchChars p n = Inr (e, p') \<Longrightarrow>
     n \<le> sp_size p \<and> e = \<lparr>sp_begin = sp_begin p, sp_size = n\<rparr> \<and>
     p' = \<lparr>sp_begin = sp_begin p + n, sp_size = sp_size p - n\<rparr>"
  by (auto simp: munchChars_def split: if_splits)

lemma INSERT_TOKEN_eff:
  "INSERT_TOKEN fn s t n = Continue s' \<Longrightarrow> (t = TK_EOF \<longrightarrow> TK_EOF \<in> set (table_kinds tb)) \<Longrightarrow>
     step_eff tb s s'"
  by (auto simp: INSERT_TOKEN_def step_eff_def mkToken_def munchChars_def
      split: sum.splits if_splits)

lemma push_token_eff:
  "push_token fn s t eaten pc' l' = Continue s' \<Longrightarrow> munchChars (pc s) n = Inr (eaten, pc') \<Longrightarrow>
     line s \<le> l' \<Longrightarrow> (t = TK_EOF \<longrightarrow> TK_EOF \<in> set (table_kinds tb)) \<Longrightarrow> step_eff tb s s'"
  by (auto simp: push_token_def step_eff_def mkToken_def munchChars_def Let_def
      split: sum.splits if_splits)

lemma skip_eff:
  "skip s pc' l' k = Continue s' \<Longrightarrow> munchChars (pc s) n = Inr (eaten, pc') \<Longrightarrow>
     line s \<le> l' \<Longrightarrow> step_eff tb s s'"
  by (auto simp: skip_def step_eff_def munchChars_def split: sum.splits if_splits)

lemma consume_eff:
  "consume s n l' = Continue s' \<Longrightarrow> line s \<le> l' \<Longrightarrow> step_eff tb s s'"
  by (auto simp: consume_def skip_def step_eff_def sp_advance_def split: sum.splits if_splits)

lemma munchComment_loop_line:
  "munchComment_loop tx cs i l = Inr (n, l') \<Longrightarrow> l \<le> l'"
proof (induction tx cs i l rule: munchComment_loop.induct)
  case (1 tx cs i l)
  from "1.prems" "1.IH" show ?case
    by (subst (asm) munchComment_loop.simps) (auto simp: Let_def split: if_splits)
qed

lemma munchSingleLineComment_loop_line:
  "munchSingleLineComment_loop cs i l = Inr (n, l') \<Longrightarrow> l \<le> l'"
proof (induction cs i l rule: munchSingleLineComment_loop.induct)
  case (1 cs i l)
  from "1.prems" "1.IH" show ?case
    by (subst (asm) munchSingleLineComment_loop.simps) (auto simp: Let_def split: if_splits)
qed

lemma munchLiteral_loop_line:
  "munchLiteral_loop q u tx cs i l = Inr (n, l') \<Longrightarrow> l \<le> l'"
proof (induction q u tx cs i l rule: munchLiteral_loop.induct)
  case (1 q u tx cs i l)
  from "1.prems" "1.IH" show ?case
    by (subst (asm) munchLiteral_loop.simps) (auto simp: Let_def split: if_splits)
qed

lemma with_line_Inr:
  "with_line p r = Inr (e, p', l') \<Longrightarrow> \<exists>n. r = Inr (n, l') \<and> munchChars p n = Inr (e, p')"
  by (auto simp: with_line_def split: sum.splits prod.splits)

lemma keywords_map_kind:
  "keywords_map tb w = Some k \<Longrightarrow> k \<in> snd ` set (CPPLINT_FORALL_KEYWORDS tb)"
proof -
  have "foldl (\<lambda>result (s, tk). result(s \<mapsto> tk)) m kws w = Some k \<Longrightarrow>
          k \<in> snd ` set kws \<or> m w = Some k" for m :: "string \<rightharpoonup> TokenType" and kws
    by (induction kws arbitrary: m) (force split: if_splits)+
  from this [of Map.empty] show "keywords_map tb w = Some k \<Longrightarrow> ?thesis"
    by (simp add: keywords_map_def initializeKeywords_def)
qed

lemma slash_eff: "slash mem fn s cs = Continue s' \<Longrightarrow> step_eff tb s s'"
  by (auto simp: slash_def rd_def munchComment_def munchSingleLineComment_def
      split: if_splits sum.splits prod.splits
      dest!: with_line_Inr
      intro: INSERT_TOKEN_eff skip_eff munchComment_loop_line munchSingleLineComment_loop_line)


lemma minus_eff: "minus fn s cs = Continue s' \<Longrightarrow> step_eff tb s s'"
  by (auto simp: minus_def rd_def split: if_splits intro: INSERT_TOKEN_eff)

lemma ITS_A_NUMBER_eff: "ITS_A_NUMBER mem fn s = Continue s' \<Longrightarrow> step_eff tb s s'"
  by (auto simp: ITS_A_NUMBER_def munchNumber_def split: sum.splits prod.splits
      intro: push_token_eff)

lemma dot_eff: "dot mem fn s cs = Continue s' \<Longrightarrow> step_eff tb s s'"
  by (auto simp: dot_def rd_def split: if_splits intro: INSERT_TOKEN_eff ITS_A_NUMBER_eff)

lemma directive_eff: "directive mem fn s = Continue s' \<Longrightarrow> step_eff tb s s'"
  by (auto simp: directive_def Let_def split: if_splits sum.splits prod.splits
      intro: INSERT_TOKEN_eff)

lemma keyword_kind:
  "keywords_map tb w = Some k \<Longrightarrow> k \<in> set (table_kinds tb)"
  by (auto simp: table_kinds_def dest!: keywords_map_kind)

lemma default_case_eff:
  assumes "default_case tb mem fn s c = Continue s'"
  shows "step_eff tb s s'"
proof (cases "iscntrl c")
  case True
  with assms show ?thesis by (auto simp: default_case_def intro: consume_eff)
next
  case False
  with assms obtain i symbol pc' t where
    m: "munchChars (pc s) i = Inr (symbol, pc')"
    and p: "push_token fn s t symbol pc' (line s) = Continue s'"
    and t: "t = TK_IDENTIFIER \<or> keywords_map tb (str mem symbol) = Some t"
    by (auto simp: default_case_def munchIdentifier_def
        split: if_splits sum.splits prod.splits option.splits)
  from t have "t = TK_EOF \<longrightarrow> TK_EOF \<in> set (table_kinds tb)"
    by (auto dest: keyword_kind)
  with p m show ?thesis by (auto intro: push_token_eff)
qed

lemma spaces_eff:
  "(case munchSpaces mem (pc s) of Inl e \<Rightarrow> Throw e
    | Inr (eaten, pc') \<Rightarrow> skip s pc' (line s) (sp_size eaten)) = Continue s' \<Longrightarrow> step_eff tb s s'"
  by (auto simp: munchSpaces_def split: sum.splits prod.splits intro: skip_eff)

lemma literal_eff:
  "(case with_line (pc s) (munchLiteral_loop q u (str mem (pc s)) (data mem (pc s)) (Suc 0) (line s)) of Inl e \<Rightarrow> Throw e
    | Inr (lit, pc', line') \<Rightarrow> push_token fn s t lit pc' line') = Continue s' \<Longrightarrow>
   t \<noteq> TK_EOF \<Longrightarrow> step_eff tb s s'"
  by (auto split: sum.splits prod.splits dest!: with_line_Inr
      intro: push_token_eff munchLiteral_loop_line)

lemma backslash_eff:
  "rd cs (Suc 0) (\<lambda>x1. if x1 = NL \<or> x1 = CR then consume s 2 (line s + 1)
          else Throw (MisplacedBackslash fn (line s))) = Continue s' \<Longrightarrow> step_eff tb s s'"
  by (auto simp: rd_def split: if_splits intro: consume_eff)

lemma explicit_cases_eff:
  assumes "explicit_cases tb mem fn s cs c = Continue s'"
  shows "step_eff tb s s'"
  using assms unfolding explicit_cases_def munchString_def munchCharLiteral_def
  by (simp split: if_splits)
     ((erule consume_eff, simp) | (erule literal_eff, simp) |
      erule slash_eff backslash_eff minus_eff spaces_eff ITS_A_NUMBER_eff dot_eff
        directive_eff default_case_eff)+

lemma one_char_kind:
  "map_of (CPPLINT_FORALL_ONE_CHAR_TOKENS tb) c = Some t \<Longrightarrow> t \<in> set (table_kinds tb)"
  by (auto simp: table_kinds_def dest!: map_of_SomeD intro: rev_image_eqI)

lemma one_or_two_kind:
  "map_of (CPPLINT_FORALL_ONE_OR_TWO_CHAR_TOKENS tb) c = Some (t1, c2, t2) \<Longrightarrow>
     t1 \<in> set (table_kinds tb) \<and> t2 \<in> set (table_kinds tb)"
  by (force simp: table_kinds_def dest!: map_of_SomeD)

lemma one_or_two2_kind:
  "map_of (CPPLINT_FORALL_ONE_OR_TWO_CHAR_TOKENS2 tb) c = Some (t1, c2, t2, c3, t3) \<Longrightarrow>
     t1 \<in> set (table_kinds tb) \<and> t2 \<in> set (table_kinds tb) \<and> t3 \<in> set (table_kinds tb)"
  by (force simp: table_kinds_def dest!: map_of_SomeD)

lemma one_to_three_kind:
  "map_of (CPPLINT_FORALL_ONE_TO_THREE_CHAR_TOKENS tb) c = Some (t1, c2, t2, c3, t3, c4, t4) \<Longrightarrow>
     t1 \<in> set (table_kinds tb) \<and> t2 \<in> set (table_kinds tb) \<and> t3 \<in> set (table_kinds tb) \<and>
     t4 \<in> set (table_kinds tb)"
  by (force simp: table_kinds_def dest!: map_of_SomeD)

lemma one_or_two_eff:
  "one_or_two fn s cs e = Continue s' \<Longrightarrow>
     map_of (CPPLINT_FORALL_ONE_OR_TWO_CHAR_TOKENS tb) c = Some e \<Longrightarrow> step_eff tb s s'"
  by (cases e)
     (auto simp: one_or_two_def rd_def split: if_splits
        dest!: one_or_two_kind intro: INSERT_TOKEN_eff)

lemma one_or_two2_eff:
  "one_or_two2 fn s cs e = Continue s' \<Longrightarrow>
     map_of (CPPLINT_FORALL_ONE_OR_TWO_CHAR_TOKENS2 tb) c = Some e \<Longrightarrow> step_eff tb s s'"
  by (cases e)
     (auto simp: one_or_two2_def rd_def split: if_splits
        dest!: one_or_two2_kind intro: INSERT_TOKEN_eff)

lemma one_to_three_eff:
  "one_to_three fn s cs e = Continue s' \<Longrightarrow>
     map_of (CPPLINT_FORALL_ONE_TO_THREE_CHAR_TOKENS tb) c = Some e \<Longrightarrow> step_eff tb s s'"
  by (cases e)
     (auto simp: one_to_three_def rd_def split: if_splits
        dest!: one_to_three_kind intro: INSERT_TOKEN_eff)

lemma step_Continue_eff:
  assumes "step tb mem fn s = Continue s'"
  shows "step_eff tb s s'"
proof -
  define cs where "cs = data mem (pc s)"
  define c where "c = cs ! 0"
  from assms have len: "0 < length cs"
    by (auto simp: step_def Let_def rd_def cs_def split: if_splits)
  show ?thesis
  proof (cases "map_of (CPPLINT_FORALL_ONE_CHAR_TOKENS tb) c")
    case (Some t0)
    with assms len have "INSERT_TOKEN fn s t0 1 = Continue s'"
      by (simp add: step_def Let_def rd_def cs_def c_def)
    with one_char_kind [OF Some] show ?thesis by (auto intro: INSERT_TOKEN_eff)
  next
    case n1: None
    show ?thesis
    proof (cases "map_of (CPPLINT_FORALL_ONE_OR_TWO_CHAR_TOKENS tb) c")
      case (Some e)
      with assms len n1 have "one_or_two fn s cs e = Continue s'"
        by (simp add: step_def Let_def rd_def cs_def c_def)
      then show ?thesis using Some by (rule one_or_two_eff)
    next
      case n2: None
      show ?thesis
      proof (cases "map_of (CPPLINT_FORALL_ONE_OR_TWO_CHAR_TOKENS2 tb) c")
        case (Some e)
        with assms len n1 n2 have "one_or_two2 fn s cs e = Continue s'"
          by (simp add: step_def Let_def rd_def cs_def c_def)
        then show ?thesis using Some by (rule one_or_two2_eff)
      next
        case n3: None
        show ?thesis
        proof (cases "map_of (CPPLINT_FORALL_ONE_TO_THREE_CHAR_TOKENS tb) c")
          case (Some e)
          with assms len n1 n2 n3 have "one_to_three fn s cs e = Continue s'"
            by (simp add: step_def Let_def rd_def cs_def c_def)
          then show ?thesis using Some by (rule one_to_three_eff)
        next
          case None
          with assms len n1 n2 n3 have "explicit_cases tb mem fn s cs c = Continue s'"
            by (simp add: step_def Let_def rd_def cs_def c_def)
          then show ?thesis by (rule explicit_cases_eff)
        qed
      qed
    qed
  qed
qed

lemma INSERT_TOKEN_not_Return [simp]: "INSERT_TOKEN fn s t n \<noteq> Return s'"
  by (auto simp: INSERT_TOKEN_def split: sum.splits prod.splits)

lemma push_token_not_Return [simp]: "push_token fn s t eaten p l \<noteq> Return s'"
  by (simp add: push_token_def Let_def)

lemma skip_not_Return [simp]: "skip s p l k \<noteq> Return s'"
  by (simp add: skip_def)

lemma consume_not_Return [simp]: "consume s n l \<noteq> Return s'"
  by (auto simp: consume_def split: sum.splits)

lemma ITS_A_NUMBER_not_Return [simp]: "ITS_A_NUMBER mem fn s \<noteq> Return s'"
  by (auto simp: ITS_A_NUMBER_def split: sum.splits prod.splits)

lemma slash_not_Return [simp]: "slash mem fn s cs \<noteq> Return s'"
  by (auto simp: slash_def rd_def split: sum.splits prod.splits)

lemma minus_not_Return [simp]: "minus fn s cs \<noteq> Return s'"
  by (auto simp: minus_def rd_def)

lemma dot_not_Return [simp]: "dot mem fn s cs \<noteq> Return s'"
  by (auto simp: dot_def rd_def)

lemma directive_not_Return [simp]: "directive mem fn s \<noteq> Return s'"
  by (auto simp: directive_def Let_def split: sum.splits prod.splits)

lemma default_case_not_Return [simp]: "default_case tb mem fn s c \<noteq> Return s'"
  by (auto simp: default_case_def split: sum.splits prod.splits option.splits)

lemma one_or_two_not_Return [simp]: "one_or_two fn s cs e \<noteq> Return s'"
  by (cases e) (auto simp: one_or_two_def rd_def)

lemma one_or_two2_not_Return [simp]: "one_or_two2 fn s cs e \<noteq> Return s'"
  by (cases e) (auto simp: one_or_two2_def rd_def)

lemma one_to_three_not_Return [simp]: "one_to_three fn s cs e \<noteq> Return s'"
  by (cases e) (auto simp: one_to_three_def rd_def)




lemma iterations_snoc:
  "iterations tb mem fn n s0 = Some s \<Longrightarrow> step tb mem fn s = Continue s'
     \<Longrightarrow> iterations tb mem fn (Suc n) s0 = Some s'"
proof (induction n arbitrary: s0)
  case 0
  then show ?case by simp
next
  case (Suc n)
  from Suc.prems(1) obtain s1 where s1: "step tb mem fn s0 = Continue s1"
    and rest: "iterations tb mem fn n s1 = Some s"
    by (auto split: step_result.splits)
  from Suc.IH [OF rest Suc.prems(2)] s1 show ?case by simp
qed

lemma step_Continue_no_EOF:
  assumes "step tb mem fn s = Continue s'" and "TK_EOF \<notin> set (table_kinds tb)"
    and "TK_EOF \<notin> set (map kind (output s))"
  shows "TK_EOF \<notin> set (map kind (output s'))"
  using step_Continue_eff [OF assms(1)] assms(2,3) by (auto simp: step_eff_def)

lemma tokenize_failure_iterations:
  assumes run: "tokenize tb beyond input fn out0 = Some (Some e, toks)"
    and tk: "TK_EOF \<notin> set (table_kinds tb)"
  shows "\<exists>n s. iterations tb (input @ [NUL] @ beyond) fn n (initial_state input) = Some s \<and>
           step tb (input @ [NUL] @ beyond) fn s = Throw e \<and> toks = output s \<and>
           TK_EOF \<notin> set (map kind toks)"
proof -
  define mem where "mem = input @ [NUL] @ beyond"
  define I where "I = (\<lambda>s :: state.
     (\<exists>n. iterations tb mem fn n (initial_state input) = Some s) \<and>
     TK_EOF \<notin> set (map kind (output s)))"
  define Q where "Q = (\<lambda>r :: error option \<times> Token list.
     \<forall>e. fst r = Some e \<longrightarrow> (\<exists>n s. iterations tb mem fn n (initial_state input) = Some s \<and>
           step tb mem fn s = Throw e \<and> snd r = output s \<and>
           TK_EOF \<notin> set (map kind (snd r))))"
  from run have "tokenize_loop tb mem fn (initial_state input) = Some (Some e, toks)"
    by (simp add: tokenize_def mem_def)
  then have "Q (Some e, toks)"
  proof (rule tokenize_loop_invariant [where I = I])
    have "iterations tb mem fn 0 (initial_state input) = Some (initial_state input)" by simp
    moreover have "output (initial_state input) = []" by (simp add: initial_state_def)
    ultimately show "I (initial_state input)"
      unfolding I_def by (metis list.simps(8) empty_iff empty_set)
  next
    fix s s' assume inv: "I s" and st: "step tb mem fn s = Continue s'"
    from inv obtain n where n: "iterations tb mem fn n (initial_state input) = Some s"
      by (auto simp: I_def)
    from inv have "TK_EOF \<notin> set (map kind (output s))" by (simp add: I_def)
    from iterations_snoc [OF n st] step_Continue_no_EOF [OF st tk this] show "I s'"
      unfolding I_def by blast
  next
    fix s e assume "I s" "step tb mem fn s = Throw e"
    then show "Q (Some e, output s)" unfolding Q_def I_def by auto
  next
    fix s s' assume inv: "I s" and st: "step tb mem fn s = Return s'"
    show "Q (None, output s')" by (simp add: Q_def)
  qed
  then show ?thesis by (simp add: Q_def mem_def)
qed

subsection \<open>Which iterations throw what\<close>

lemma munchChars_Inl: "munchChars p n = Inl e \<Longrightarrow> e = OutOfRange"
  by (auto simp: munchChars_def split: if_splits)

lemma sp_advance_Inl: "sp_advance p n = Inl e \<Longrightarrow> e = OutOfRange"
  by (auto simp: sp_advance_def split: if_splits)

lemma munchIdentifier_loop_Inl: "munchIdentifier_loop tx cs i = Inl e \<Longrightarrow> error_file e = None"
proof (induction tx cs i rule: munchIdentifier_loop.induct)
  case (1 tx cs i)
  from "1.prems" "1.IH" show ?case
    by (subst (asm) munchIdentifier_loop.simps) (auto simp: Let_def split: if_splits)
qed

lemma munchComment_loop_Inl: "munchComment_loop tx cs i l = Inl e \<Longrightarrow> error_file e = None"
proof (induction tx cs i l rule: munchComment_loop.induct)
  case (1 tx cs i l)
  from "1.prems" "1.IH" show ?case
    by (subst (asm) munchComment_loop.simps) (auto simp: Let_def split: if_splits)
qed

lemma munchSingleLineComment_loop_Inl:
  "munchSingleLineComment_loop cs i l = Inl e \<Longrightarrow> error_file e = None"
proof (induction cs i l rule: munchSingleLineComment_loop.induct)
  case (1 cs i l)
  from "1.prems" "1.IH" show ?case
    by (subst (asm) munchSingleLineComment_loop.simps) (auto simp: Let_def split: if_splits)
qed

text \<open>One iteration of the loop of \<^verbatim>\<open>munchNumber\<close>, case by case.\<close>

lemma munchNumber_loop_cases [case_names past dot digit hex sign_stop sign_go exp pexp x suffix stop]:
  fixes tx cs i d e h f
  defines "c \<equiv> cs ! i"
  defines "r \<equiv> munchNumber_loop tx cs i d e h f"
  obtains
    (past) "\<not> i < length cs" "r = Inl OutsideMemory"
  | (dot) "i < length cs" "c = CHR ''.''"
      "r = munchNumber_loop tx cs (i + 1) True e h f"
  | (digit) "i < length cs" "isdigit c"
      "r = munchNumber_loop tx cs (i + 1) d e h f"
  | (hex) "i < length cs" "c \<noteq> NUL" "strchr ''AaBbCcDdEeFf'' c"
      "r = munchNumber_loop tx cs (i + 1) d e h f"
  | (sign_stop) "i < length cs" "c = CHR ''+'' \<or> c = CHR ''-''"
      "0 < i" "\<not> strchr ''EePp'' (cs ! (i - 1))" "r = Inr i"
  | (sign_go) "i < length cs" "c = CHR ''+'' \<or> c = CHR ''-''"
      "i = 0 \<or> strchr ''EePp'' (cs ! (i - 1))"
      "r = munchNumber_loop tx cs (i + 1) d e h f"
  | (exp) "i < length cs" "c = CHR ''e'' \<or> c = CHR ''E''"
      "r = munchNumber_loop tx cs (i + 1) d True h f"
  | (pexp) "i < length cs" "c = CHR ''p'' \<or> c = CHR ''P''"
      "r = munchNumber_loop tx cs (i + 1) d True h f"
  | (x) "i < length cs" "c = CHR ''x'' \<or> c = CHR ''X''"
      "r = munchNumber_loop tx cs (i + 1) d e True f"
  | (suffix) "i < length cs" "c \<noteq> NUL" "strchr ''FfLlUu'' c"
      "r = munchNumber_loop tx cs (i + 1) d e h True"
  | (stop) "i < length cs" "c \<noteq> CHR ''+''" "c \<noteq> CHR ''-''"
      "r = (if 0 < i then Inr i else Inl (InvalidNumber tx))"
proof -
  define k1 where "k1 \<longleftrightarrow> c = CHR ''.'' \<and> \<not> d \<and> \<not> e \<and> \<not> f"
  define k3 where "k3 \<longleftrightarrow> h \<and> \<not> e \<and> c \<noteq> NUL \<and> strchr ''AaBbCcDdEeFf'' c"
  define k4 where "k4 \<longleftrightarrow> c = CHR ''+'' \<or> c = CHR ''-''"
  define k4' where "k4' \<longleftrightarrow> i > 0 \<and> \<not> strchr ''EePp'' (cs ! (i - 1))"
  define k5 where "k5 \<longleftrightarrow> \<not> e \<and> \<not> f \<and> \<not> h \<and> (c = CHR ''e'' \<or> c = CHR ''E'')"
  define k6 where "k6 \<longleftrightarrow> h \<and> \<not> e \<and> \<not> f \<and> (c = CHR ''p'' \<or> c = CHR ''P'')"
  define k7 where "k7 \<longleftrightarrow> (c = CHR ''x'' \<or> c = CHR ''X'') \<and> i = 1 \<and> cs ! 0 = CHR ''0''"
  define k8 where "k8 \<longleftrightarrow> c \<noteq> NUL \<and> strchr ''FfLlUu'' c"
  have eq: "r =
     (if i < length cs then
        if k1 then munchNumber_loop tx cs (i + 1) True e h f
        else if isdigit c then munchNumber_loop tx cs (i + 1) d e h f
        else if k3 then munchNumber_loop tx cs (i + 1) d e h f
        else if k4 then (if k4' then Inr i else munchNumber_loop tx cs (i + 1) d e h f)
        else if k5 then munchNumber_loop tx cs (i + 1) d True h f
        else if k6 then munchNumber_loop tx cs (i + 1) d True h f
        else if k7 then munchNumber_loop tx cs (i + 1) d e True f
        else if k8 then munchNumber_loop tx cs (i + 1) d e h True
        else (if i > 0 then Inr i else Inl (InvalidNumber tx))
      else Inl OutsideMemory)"
    unfolding r_def k1_def k3_def k4_def k4'_def k5_def k6_def k7_def k8_def c_def
    by (subst munchNumber_loop.simps) (simp only: Let_def)
  consider "\<not> i < length cs" | "i < length cs" "k1" | "i < length cs" "\<not> k1" "isdigit c"
    | "i < length cs" "\<not> k1" "\<not> isdigit c" "k3"
    | "i < length cs" "\<not> k1" "\<not> isdigit c" "\<not> k3" "k4" "k4'"
    | "i < length cs" "\<not> k1" "\<not> isdigit c" "\<not> k3" "k4" "\<not> k4'"
    | "i < length cs" "\<not> k1" "\<not> isdigit c" "\<not> k3" "\<not> k4" "k5"
    | "i < length cs" "\<not> k1" "\<not> isdigit c" "\<not> k3" "\<not> k4" "\<not> k5" "k6"
    | "i < length cs" "\<not> k1" "\<not> isdigit c" "\<not> k3" "\<not> k4" "\<not> k5" "\<not> k6" "k7"
    | "i < length cs" "\<not> k1" "\<not> isdigit c" "\<not> k3" "\<not> k4" "\<not> k5" "\<not> k6" "\<not> k7" "k8"
    | "i < length cs" "\<not> k1" "\<not> isdigit c" "\<not> k3" "\<not> k4" "\<not> k5" "\<not> k6" "\<not> k7" "\<not> k8"
    by blast
  then show thesis
  proof cases
    case 1 with eq past show ?thesis by simp
  next
    case 2 with eq dot show ?thesis by (simp add: k1_def)
  next
    case 3 with eq digit show ?thesis by simp
  next
    case 4 with eq hex show ?thesis by (simp add: k3_def)
  next
    case 5 with eq sign_stop show ?thesis by (simp add: k4_def k4'_def)
  next
    case 6 with eq sign_go [unfolded r_def c_def] show ?thesis
      unfolding k4_def k4'_def r_def c_def by auto
  next
    case 7 with eq exp show ?thesis by (simp add: k5_def)
  next
    case 8 with eq pexp show ?thesis by (simp add: k6_def)
  next
    case 9 with eq x show ?thesis by (simp add: k7_def)
  next
    case 10 with eq suffix show ?thesis by (simp add: k8_def)
  next
    case 11 with eq stop show ?thesis by (simp add: k4_def)
  qed
qed


lemma munchNumber_loop_induct [case_names step]:
  assumes "\<And>i d e h f.
     (\<And>d' e' h' f'. i < length cs \<Longrightarrow> P (i + 1) d' e' h' f') \<Longrightarrow> P i d e h f"
  shows "P i d e h f"
proof (induction "length cs - i" arbitrary: i d e h f rule: less_induct)
  case less
  show ?case by (rule assms) (rule less, simp)
qed

lemma munchNumber_loop_Inl:
  "munchNumber_loop tx cs i d e h f = Inl err \<Longrightarrow> err = OutsideMemory \<or> err = InvalidNumber tx"
proof (induction i d e h f rule: munchNumber_loop_induct [where cs = cs])
  case (step i d e h f)
  show ?case
    by (cases rule: munchNumber_loop_cases [where tx = tx and cs = cs and i = i and d = d and e = e
          and h = h and f = f])
       (use step in \<open>auto split: if_splits\<close>)
qed

text \<open>
  What \<^verbatim>\<open>munchNumber\<close> eats: at least one character, inside the piece, no NUL and no
  newline.
\<close>

lemma munchNumber_loop_Inr:
  "munchNumber_loop tx cs i d e h f = Inr n \<Longrightarrow>
     i \<le> n \<and> 0 < n \<and> n < length cs \<and> (\<forall>j. i \<le> j \<and> j < n \<longrightarrow> cs ! j \<noteq> NUL \<and> cs ! j \<noteq> NL)"
proof (induction i d e h f rule: munchNumber_loop_induct [where cs = cs])
  case (step i d e h f)
  have go: "i \<le> n \<and> 0 < n \<and> n < length cs \<and>
      (\<forall>j. i \<le> j \<and> j < n \<longrightarrow> cs ! j \<noteq> NUL \<and> cs ! j \<noteq> NL)"
    if "i < length cs" "munchNumber_loop tx cs (i + 1) d' e' h' f' = Inr n"
      "cs ! i \<noteq> NUL" "cs ! i \<noteq> NL" for d' e' h' f'
  proof -
    from step.IH [OF that(1,2)] have *: "i + 1 \<le> n" "0 < n" "n < length cs"
      "\<forall>j. i + 1 \<le> j \<and> j < n \<longrightarrow> cs ! j \<noteq> NUL \<and> cs ! j \<noteq> NL" by auto
    have "cs ! j \<noteq> NUL \<and> cs ! j \<noteq> NL" if "i \<le> j" "j < n" for j
      using that * \<open>cs ! i \<noteq> NUL\<close> \<open>cs ! i \<noteq> NL\<close> by (cases "j = i") auto
    with * show ?thesis by auto
  qed
  note cases = munchNumber_loop_cases [where tx = tx and cs = cs and i = i and d = d and e = e
      and h = h and f = f]
  from step.prems show ?case
  proof (cases rule: cases)
    case past then show ?thesis using step.prems by simp
  next
    case dot then show ?thesis using step.prems by (intro go) auto
  next
    case digit then show ?thesis using step.prems by (intro go) (auto simp: isdigit_def)
  next
    case hex then show ?thesis using step.prems by (intro go) (auto simp: strchr_def)
  next
    case sign_stop then show ?thesis using step.prems by auto
  next
    case sign_go then show ?thesis using step.prems by (intro go) auto
  next
    case exp then show ?thesis using step.prems by (intro go) auto
  next
    case pexp then show ?thesis using step.prems by (intro go) auto
  next
    case x then show ?thesis using step.prems by (intro go) auto
  next
    case suffix then show ?thesis using step.prems by (intro go) (auto simp: strchr_def)
  next
    case stop then show ?thesis using step.prems by (auto split: if_splits)
  qed
qed

lemma munchLiteral_loop_Inl:
  "munchLiteral_loop q u tx cs i l = Inl e \<Longrightarrow> (\<And>x. error_file (u x) = None) \<Longrightarrow>
     error_file e = None"
proof (induction q u tx cs i l rule: munchLiteral_loop.induct)
  case (1 q u tx cs i l)
  from "1.prems" "1.IH" show ?case
    by (subst (asm) munchLiteral_loop.simps) (auto simp: Let_def split: if_splits)
qed

lemma munchSpaces_loop_Inl: "munchSpaces_loop cs i = Inl e \<Longrightarrow> error_file e = None"
proof (induction cs i rule: munchSpaces_loop.induct)
  case (1 cs i)
  from "1.prems" "1.IH" show ?case
    by (subst (asm) munchSpaces_loop.simps) (auto simp: Let_def split: if_splits)
qed

lemma with_line_Inl:
  "with_line p r = Inl e \<Longrightarrow> r = Inl e \<or> e = OutOfRange"
  by (auto simp: with_line_def split: sum.splits prod.splits dest: munchChars_Inl)


lemma munchers_Inl:
  "munchIdentifier mem p = Inl e \<Longrightarrow> error_file e = None"
  "munchNumber mem p = Inl e \<Longrightarrow> error_file e = None"
  "munchSpaces mem p = Inl e \<Longrightarrow> error_file e = None"
  "munchComment mem p l = Inl e \<Longrightarrow> error_file e = None"
  "munchSingleLineComment mem p l = Inl e \<Longrightarrow> error_file e = None"
  "munchCharLiteral mem p l = Inl e \<Longrightarrow> error_file e = None"
  "munchString mem p l = Inl e \<Longrightarrow> error_file e = None"
  by (auto simp: munchIdentifier_def munchNumber_def munchSpaces_def munchComment_def
      munchSingleLineComment_def munchCharLiteral_def munchString_def
      split: sum.splits
      dest!: with_line_Inl munchChars_Inl
      dest: munchIdentifier_loop_Inl munchNumber_loop_Inl munchSpaces_loop_Inl
        munchComment_loop_Inl munchSingleLineComment_loop_Inl munchLiteral_loop_Inl)

lemma INSERT_TOKEN_Throw: "INSERT_TOKEN fn s t n = Throw e \<Longrightarrow> error_file e = None"
  by (auto simp: INSERT_TOKEN_def split: sum.splits prod.splits dest: munchChars_Inl)

lemma consume_Throw: "consume s n l = Throw e \<Longrightarrow> error_file e = None"
  by (auto simp: consume_def skip_def split: sum.splits dest: sp_advance_Inl)

lemma ITS_A_NUMBER_Throw: "ITS_A_NUMBER mem fn s = Throw e \<Longrightarrow> error_file e = None"
  by (auto simp: ITS_A_NUMBER_def push_token_def Let_def split: sum.splits prod.splits
      dest: munchers_Inl)

lemma slash_Throw: "slash mem fn s cs = Throw e \<Longrightarrow> error_file e = None"
  by (auto simp: slash_def rd_def skip_def split: if_splits sum.splits prod.splits
      dest: munchers_Inl INSERT_TOKEN_Throw)

lemma minus_Throw: "minus fn s cs = Throw e \<Longrightarrow> error_file e = None"
  by (auto simp: minus_def rd_def split: if_splits dest: INSERT_TOKEN_Throw)

lemma dot_Throw: "dot mem fn s cs = Throw e \<Longrightarrow> error_file e = None"
  by (auto simp: dot_def rd_def split: if_splits dest: INSERT_TOKEN_Throw ITS_A_NUMBER_Throw)

lemma directive_Throw: "directive mem fn s = Throw e \<Longrightarrow> error_file e = None"
  by (auto simp: directive_def Let_def split: if_splits sum.splits prod.splits
      dest: INSERT_TOKEN_Throw munchers_Inl sp_advance_Inl)

lemma tiers_Throw:
  "one_or_two fn s cs e2 = Throw e \<Longrightarrow> error_file e = None"
  "one_or_two2 fn s cs e3 = Throw e \<Longrightarrow> error_file e = None"
  "one_to_three fn s cs e4 = Throw e \<Longrightarrow> error_file e = None"
  by (cases e2; cases e3; cases e4;
      auto simp: one_or_two_def one_or_two2_def one_to_three_def rd_def split: if_splits
        dest: INSERT_TOKEN_Throw)+

lemma default_case_Throw:
  "default_case tb mem fn s c = Throw e \<Longrightarrow>
     error_file e = None \<or>
     (e = UnrecognizedCharacter fn (line s) \<and> \<not> iscntrl c \<and> \<not> isalpha c \<and>
      c \<noteq> CHR ''_'' \<and> c \<noteq> CHR ''$'' \<and> c \<noteq> CHR ''@'')"
  by (auto simp: default_case_def push_token_def Let_def
      split: if_splits sum.splits prod.splits option.splits
      dest: consume_Throw munchers_Inl)

lemma literal_Throw:
  "(case munchString mem (pc s) (line s) of Inl e \<Rightarrow> Throw e
    | Inr (lit, pc', line') \<Rightarrow> push_token fn s t lit pc' line') = Throw e \<Longrightarrow>
     error_file e = None"
  "(case munchCharLiteral mem (pc s) (line s) of Inl e \<Rightarrow> Throw e
    | Inr (lit, pc', line') \<Rightarrow> push_token fn s t lit pc' line') = Throw e \<Longrightarrow>
     error_file e = None"
  by (auto simp: push_token_def Let_def split: sum.splits prod.splits dest: munchers_Inl)

lemma spaces_Throw:
  "(case munchSpaces mem (pc s) of Inl e \<Rightarrow> Throw e
    | Inr (eaten, pc') \<Rightarrow> skip s pc' (line s) (sp_size eaten)) = Throw e \<Longrightarrow>
     error_file e = None"
  by (auto simp: skip_def split: sum.splits prod.splits dest: munchers_Inl)

lemma backslash_Throw:
  "rd cs (Suc 0) (\<lambda>x1. if x1 = NL \<or> x1 = CR then consume s 2 (line s + 1)
          else Throw (MisplacedBackslash fn (line s))) = Throw e \<Longrightarrow>
     error_file e = None \<or> e = MisplacedBackslash fn (line s)"
  by (auto simp: rd_def split: if_splits dest: consume_Throw)

lemma explicit_cases_default:
  "c \<notin> set case_labels \<Longrightarrow> explicit_cases tb mem fn s cs c = default_case tb mem fn s c"
  by (simp add: explicit_cases_def case_labels_def)

lemma explicit_cases_Throw:
  assumes "explicit_cases tb mem fn s cs c = Throw e"
  shows "error_file e = None \<or>
     (c = BACKSLASH \<and> e = MisplacedBackslash fn (line s)) \<or>
     (c = BACKQUOTE \<and> e = InvalidCharacter BACKQUOTE fn (line s)) \<or>
     (e = UnrecognizedCharacter fn (line s) \<and> \<not> iscntrl c \<and> \<not> isalpha c \<and>
      c \<noteq> CHR ''_'' \<and> c \<noteq> CHR ''$'' \<and> c \<noteq> CHR ''@'' \<and> c \<notin> set case_labels)"
proof (cases "c \<in> set case_labels")
  case False
  with assms have "default_case tb mem fn s c = Throw e"
    by (simp add: explicit_cases_default)
  from default_case_Throw [OF this] False show ?thesis by auto
next
  case True
  note d = explicit_cases_def
  have 1: "error_file e = None" if "c = CHR ''/''"
    using assms that by (auto simp: d intro: slash_Throw)
  have 2: "error_file e = None \<or> e = MisplacedBackslash fn (line s)" if "c = BACKSLASH"
  proof -
    from assms that have "rd cs (Suc 0) (\<lambda>x1. if x1 = NL \<or> x1 = CR
        then consume s 2 (line s + 1) else Throw (MisplacedBackslash fn (line s))) = Throw e"
      by (simp add: d)
    then show ?thesis by (rule backslash_Throw)
  qed
  have 3: "error_file e = None" if "c = NL \<or> c = CR"
    using assms that by (auto simp: d intro: consume_Throw)
  have 4: "error_file e = None" if "c = CHR ''-''"
    using assms that by (auto simp: d intro: minus_Throw)
  have 5: "error_file e = None" if "c = CHR '' '' \<or> c = TAB"
    using assms that by (auto simp: d intro: spaces_Throw)
  have 6: "False" if "c = NUL"
    using assms that by (simp add: d)
  have 7: "e = InvalidCharacter BACKQUOTE fn (line s)" if "c = BACKQUOTE"
    using assms that by (auto simp: d)
  have 8: "error_file e = None" if "c \<in> set ''0123456789''"
  proof -
    from that have "explicit_cases tb mem fn s cs c = ITS_A_NUMBER mem fn s"
      by (auto simp: d)
    with assms show ?thesis by (auto intro: ITS_A_NUMBER_Throw)
  qed
  have 9: "error_file e = None" if "c = CHR ''.''"
    using assms that by (auto simp: d intro: dot_Throw)
  have 10: "error_file e = None" if "c = SQUOTE \<or> c = DQUOTE"
    using assms that by (auto simp: d intro: literal_Throw)
  have 11: "error_file e = None" if "c = CHR ''#''"
    using assms that by (auto simp: d intro: directive_Throw)
  from True 2 6 7 show ?thesis
    unfolding case_labels_def
    by (simp, elim disjE) (simp_all add: 1 3 4 5 8 9 10 11)
qed

lemma step_Throw:
  assumes "step tb mem fn s = Throw e"
  shows "error_file e = None \<or>
     (data mem (pc s) \<noteq> [] \<and>
      (let c = hd (data mem (pc s)) in
       c \<notin> set (table_leads tb) \<and>
       ((c = BACKSLASH \<and> e = MisplacedBackslash fn (line s)) \<or>
        (c = BACKQUOTE \<and> e = InvalidCharacter BACKQUOTE fn (line s)) \<or>
        (e = UnrecognizedCharacter fn (line s) \<and> \<not> iscntrl c \<and> \<not> isalpha c \<and>
         c \<noteq> CHR ''_'' \<and> c \<noteq> CHR ''$'' \<and> c \<noteq> CHR ''@'' \<and> c \<notin> set case_labels))))"
proof (cases "error_file e = None")
  case True then show ?thesis by simp
next
  case False
  define cs where "cs = data mem (pc s)"
  define c where "c = cs ! 0"
  from assms False have ne: "cs \<noteq> []"
    by (auto simp: step_def Let_def rd_def cs_def)
  then have c: "c = hd cs" by (simp add: c_def hd_conv_nth)
  have n1: "map_of (CPPLINT_FORALL_ONE_CHAR_TOKENS tb) c = None"
    using assms False ne
    by (cases "map_of (CPPLINT_FORALL_ONE_CHAR_TOKENS tb) c")
       (auto simp: step_def Let_def rd_def cs_def c_def dest: INSERT_TOKEN_Throw)
  have n2: "map_of (CPPLINT_FORALL_ONE_OR_TWO_CHAR_TOKENS tb) c = None"
    using assms False ne n1
    by (cases "map_of (CPPLINT_FORALL_ONE_OR_TWO_CHAR_TOKENS tb) c")
       (auto simp: step_def Let_def rd_def cs_def c_def dest: tiers_Throw)
  have n3: "map_of (CPPLINT_FORALL_ONE_OR_TWO_CHAR_TOKENS2 tb) c = None"
    using assms False ne n1 n2
    by (cases "map_of (CPPLINT_FORALL_ONE_OR_TWO_CHAR_TOKENS2 tb) c")
       (auto simp: step_def Let_def rd_def cs_def c_def dest: tiers_Throw)
  have n4: "map_of (CPPLINT_FORALL_ONE_TO_THREE_CHAR_TOKENS tb) c = None"
    using assms False ne n1 n2 n3
    by (cases "map_of (CPPLINT_FORALL_ONE_TO_THREE_CHAR_TOKENS tb) c")
       (auto simp: step_def Let_def rd_def cs_def c_def dest: tiers_Throw)
  from n1 n2 n3 n4 have lead: "c \<notin> set (table_leads tb)"
    by (simp add: table_leads_def map_of_eq_None_iff)
  from assms ne n1 n2 n3 n4 have "explicit_cases tb mem fn s cs c = Throw e"
    by (simp add: step_def Let_def rd_def cs_def c_def)
  from explicit_cases_Throw [OF this] False lead ne c show ?thesis
    by (simp add: cs_def Let_def)
qed

lemma leads_None:
  assumes "c \<notin> set (table_leads tb)"
  shows "map_of (CPPLINT_FORALL_ONE_CHAR_TOKENS tb) c = None"
    "map_of (CPPLINT_FORALL_ONE_OR_TWO_CHAR_TOKENS tb) c = None"
    "map_of (CPPLINT_FORALL_ONE_OR_TWO_CHAR_TOKENS2 tb) c = None"
    "map_of (CPPLINT_FORALL_ONE_TO_THREE_CHAR_TOKENS tb) c = None"
  using assms by (simp_all add: table_leads_def map_of_eq_None_iff)

lemma step_explicit:
  "data mem (pc s) = c # rest \<Longrightarrow> c \<notin> set (table_leads tb) \<Longrightarrow>
     step tb mem fn s = explicit_cases tb mem fn s (c # rest) c"
  by (simp add: step_def Let_def rd_def leads_None)

lemma str_size: "str mem p = xs \<Longrightarrow> length xs \<le> sp_size p"
  by (auto simp: str_def)

text \<open>The text of a piece is where memory from its \<^verbatim>\<open>data()\<close> on begins.\<close>

lemma str_data: "str mem p = xs \<Longrightarrow> data mem p = xs @ drop (length xs) (data mem p)"
proof -
  assume "str mem p = xs"
  then have xs: "xs = take (sp_size p) (data mem p)" by (simp add: str_def data_def)
  show ?thesis
  proof (cases "sp_size p \<le> length (data mem p)")
    case True
    with xs have "length xs = sp_size p" by simp
    with xs show ?thesis by simp
  next
    case False
    with xs show ?thesis by simp
  qed
qed


lemma iscntrl_not_alpha: "iscntrl c \<Longrightarrow> \<not> isalpha c"
  by (auto simp: iscntrl_def isalpha_def)




lemma step_explicit_str:
  assumes "str mem (pc s) = c # rest" and "c \<notin> set (table_leads tb)"
  shows "step tb mem fn s = explicit_cases tb mem fn s (data mem (pc s)) c"
proof -
  from str_data [OF assms(1)]
  have "data mem (pc s) = c # (rest @ drop (length (c # rest)) (data mem (pc s)))" by simp
  from step_explicit [OF this assms(2)] this show ?thesis by simp
qed

lemma backslash_step:
  assumes "str mem (pc s) = BACKSLASH # x # rest"
    and "BACKSLASH \<notin> set (table_leads tb)"
  shows "step tb mem fn s =
     (if x = NL \<or> x = CR then
        Continue (s\<lparr>pc := \<lparr>sp_begin = sp_begin (pc s) + 2, sp_size = sp_size (pc s) - 2\<rparr>,
                    line := line s + 1,
                    preTokenLen := preTokenLen s + 2\<rparr>)
      else Throw (MisplacedBackslash fn (line s)))"
proof -
  from str_size [OF assms(1)] have "2 \<le> sp_size (pc s)" by simp
  moreover from str_data [OF assms(1)]
  have "data mem (pc s) = BACKSLASH # x # (rest @ drop (length (BACKSLASH # x # rest)) (data mem (pc s)))"
    by simp
  then have "\<exists>ys. data mem (pc s) = BACKSLASH # x # ys" by blast
  ultimately show ?thesis
    by (auto simp add: step_explicit_str [OF assms] explicit_cases_def rd_def consume_def skip_def
        sp_advance_def)
qed





lemma munchComment_loop_unterminated:
  "NUL \<notin> set body \<Longrightarrow> \<not> has_close body \<Longrightarrow>
     munchComment_loop tx (pre @ body @ NUL # beyond) (length pre) l =
       Inl (UnterminatedComment tx)"
proof (induction body arbitrary: pre l)
  case Nil
  show ?case by (subst munchComment_loop.simps) simp
next
  case (Cons x body)
  from Cons.prems have x: "x \<noteq> NUL" and nul: "NUL \<notin> set body"
    and nxt: "x = CHR ''*'' \<longrightarrow> (body @ NUL # beyond) ! 0 \<noteq> CHR ''/''"
    and cl: "\<not> has_close body"
    by (cases body; auto)+
  have rec: "munchComment_loop tx (pre @ x # body @ NUL # beyond) (Suc (length pre)) l' =
       Inl (UnterminatedComment tx)" for l'
    using Cons.IH [OF nul cl, of "pre @ [x]" l'] by simp
  show ?case
    using x nxt rec [of l] rec [of "Suc l"]
    by (subst munchComment_loop.simps) (auto simp: nth_append)
qed

lemma munchLiteral_loop_unterminated:
  "unclosed q body \<Longrightarrow> NUL \<notin> set body \<Longrightarrow> q \<noteq> NUL \<Longrightarrow>
     munchLiteral_loop q u tx (pre @ body @ NUL # beyond) (length pre) l = Inl (u tx)"
proof (induction q body arbitrary: pre l rule: unclosed.induct)
  case (1 q)
  then show ?case by (subst munchLiteral_loop.simps) simp
next
  case (2 q x cs)
  from "2.prems" have x: "x \<noteq> q" "x \<noteq> NUL" by auto
  show ?case
  proof (cases "x = BACKSLASH")
    case True
    with "2.prems" obtain y cs' where cs: "cs = y # cs'" and u: "unclosed q cs'"
      by (cases cs) auto
    from "2.IH"(1) [OF True cs u, of "pre @ [x, y]"] "2.prems" cs
    have "munchLiteral_loop q u tx (pre @ x # y # cs' @ NUL # beyond) (Suc (Suc (length pre))) l' =
       Inl (u tx)" for l'
      by simp
    with True x cs show ?thesis
      by (subst munchLiteral_loop.simps) (simp add: nth_append)
  next
    case False
    with "2.prems" have u: "unclosed q cs" by simp
    from "2.IH"(2) [OF False u, of "pre @ [x]"] "2.prems"
    have "munchLiteral_loop q u tx (pre @ x # cs @ NUL # beyond) (Suc (length pre)) l' =
       Inl (u tx)" for l'
      by simp
    with False x show ?thesis
      by (subst munchLiteral_loop.simps) (simp add: nth_append)
  qed
qed

lemma unterminated_comment_step:
  assumes cs: "str mem (pc s) = ''/*'' @ body @ [NUL]" and nul: "NUL \<notin> set body"
    and cl: "\<not> has_close body" and lead: "CHR ''/'' \<notin> set (table_leads tb)"
  shows "step tb mem fn s = Throw (UnterminatedComment (str mem (pc s)))"
proof -
  define beyond where "beyond = drop (length (str mem (pc s))) (data mem (pc s))"
  from str_data [OF cs] have d: "data mem (pc s) = ''/*'' @ body @ NUL # beyond"
    by (simp add: beyond_def cs)
  from munchComment_loop_unterminated [OF nul cl, of "str mem (pc s)" "''/*''" beyond "line s"] d
  have "munchComment_loop (str mem (pc s)) (data mem (pc s)) 2 (line s) =
      Inl (UnterminatedComment (str mem (pc s)))"
    by (simp add: numeral_2_eq_2)
  then have "munchComment mem (pc s) (line s) = Inl (UnterminatedComment (str mem (pc s)))"
    by (simp add: munchComment_def with_line_def)
  moreover have "step tb mem fn s = slash mem fn s (data mem (pc s))"
    using step_explicit_str [of mem s "CHR ''/''" "''*'' @ body @ [NUL]" tb fn] lead cs
    by (simp add: explicit_cases_def)
  ultimately show ?thesis using d by (simp add: slash_def rd_def)
qed

lemma unterminated_literal_step:
  assumes cs: "str mem (pc s) = q # body @ [NUL]" and nul: "NUL \<notin> set body"
    and cl: "unclosed q body" and lead: "q \<notin> set (table_leads tb)"
  shows "q = DQUOTE \<Longrightarrow> step tb mem fn s = Throw (UnterminatedStringConstant (str mem (pc s)))"
    and "q = SQUOTE \<Longrightarrow> step tb mem fn s = Throw (UnterminatedCharConstant (str mem (pc s)))"
proof -
  define beyond where "beyond = drop (length (str mem (pc s))) (data mem (pc s))"
  from str_data [OF cs] have d: "data mem (pc s) = q # body @ NUL # beyond"
    by (simp add: beyond_def cs)
  have loop: "munchLiteral_loop q u (str mem (pc s)) (data mem (pc s)) (Suc 0) (line s) =
      Inl (u (str mem (pc s)))"
    if "q \<noteq> NUL" for u
    using munchLiteral_loop_unterminated [OF cl nul that, of u "str mem (pc s)" "[q]" beyond "line s"] d
    by simp
  have st: "step tb mem fn s = explicit_cases tb mem fn s (data mem (pc s)) q"
    using step_explicit_str [OF cs lead] by simp
  show "q = DQUOTE \<Longrightarrow> step tb mem fn s = Throw (UnterminatedStringConstant (str mem (pc s)))"
    using loop [of UnterminatedStringConstant]
    by (simp add: st explicit_cases_def munchString_def with_line_def)
  show "q = SQUOTE \<Longrightarrow> step tb mem fn s = Throw (UnterminatedCharConstant (str mem (pc s)))"
    using loop [of UnterminatedCharConstant]
    by (simp add: st explicit_cases_def munchCharLiteral_def with_line_def)
qed

lemma step_Throw_file:
  assumes "step tb mem fn s = Throw e" and "error_file e \<noteq> None"
  shows "error_file e = Some fn \<and> error_line e = Some (line s)"
  using step_Throw [OF assms(1)] assms(2) by (auto simp: Let_def)

lemma munchNumber_loop_signs:
  "munchNumber_loop tx cs i d e h f = Inr n \<Longrightarrow>
     (\<forall>j. i \<le> j \<and> j < n \<and> 0 < j \<and> (cs ! j = CHR ''+'' \<or> cs ! j = CHR ''-'') \<longrightarrow>
        strchr ''EePp'' (cs ! (j - 1))) \<and>
     ((cs ! n = CHR ''+'' \<or> cs ! n = CHR ''-'') \<longrightarrow> \<not> strchr ''EePp'' (cs ! (n - 1)))"
proof (induction i d e h f rule: munchNumber_loop_induct [where cs = cs])
  case (step i d e h f)
  let ?sign = "\<lambda>c. c = CHR ''+'' \<or> c = CHR ''-''"
  let ?P = "\<lambda>i. (\<forall>j. i \<le> j \<and> j < n \<and> 0 < j \<and> ?sign (cs ! j) \<longrightarrow>
        strchr ''EePp'' (cs ! (j - 1))) \<and>
     (?sign (cs ! n) \<longrightarrow> \<not> strchr ''EePp'' (cs ! (n - 1)))"
  have go: "?P i"
    if "i < length cs" "munchNumber_loop tx cs (i + 1) d' e' h' f' = Inr n"
      "?sign (cs ! i) \<longrightarrow> i = 0 \<or> strchr ''EePp'' (cs ! (i - 1))" for d' e' h' f'
  proof -
    from step.IH [OF that(1,2)] have *: "?P (i + 1)" .
    have "strchr ''EePp'' (cs ! (j - 1))" if "i \<le> j" "j < n" "0 < j" "?sign (cs ! j)" for j
      using that * \<open>?sign (cs ! i) \<longrightarrow> i = 0 \<or> strchr ''EePp'' (cs ! (i - 1))\<close>
      by (cases "j = i") auto
    with * show ?thesis by blast
  qed
  note cases = munchNumber_loop_cases [where tx = tx and cs = cs and i = i and d = d and e = e
      and h = h and f = f]
  from step.prems show ?case
  proof (cases rule: cases)
    case past then show ?thesis using step.prems by simp
  next
    case dot then show ?thesis using step.prems by (intro go) auto
  next
    case digit then show ?thesis using step.prems by (intro go) (auto simp: isdigit_def)
  next
    case hex then show ?thesis using step.prems by (intro go) (auto simp: strchr_def)
  next
    case sign_stop then show ?thesis using step.prems by auto
  next
    case sign_go then show ?thesis using step.prems by (intro go) auto
  next
    case exp then show ?thesis using step.prems by (intro go) auto
  next
    case pexp then show ?thesis using step.prems by (intro go) auto
  next
    case x then show ?thesis using step.prems by (intro go) auto
  next
    case suffix then show ?thesis using step.prems by (intro go) (auto simp: strchr_def)
  next
    case stop then show ?thesis using step.prems by (auto split: if_splits)
  qed
qed

text \<open>What \<^verbatim>\<open>munchNumber\<close> returns, in terms of its loop.\<close>

lemma munchNumber_result:
  assumes "munchNumber mem p = Inr (number, p')"
  obtains n where
    "munchNumber_loop (str mem p) (data mem p) 0 False False False False = Inr n"
    "0 < n" "n < length (data mem p)"
    "str mem number = take n (data mem p)" "data mem p' = drop n (data mem p)"
proof -
  from assms obtain n where
    lp: "munchNumber_loop (str mem p) (data mem p) 0 False False False False = Inr n"
    and ch: "munchChars p n = Inr (number, p')"
    by (auto simp: munchNumber_def split: sum.splits)
  from munchNumber_loop_Inr [OF lp] have n: "0 < n" "n < length (data mem p)" by auto
  from munchChars_Inr [OF ch] have "str mem number = take n (data mem p)"
    "data mem p' = drop n (data mem p)"
    by (simp_all add: str_def data_def add.commute)
  with lp n that show thesis by blast
qed

lemma munchNumber_signs:
  assumes "munchNumber mem p = Inr (number, p')"
  shows "(\<forall>j. 0 < j \<and> j < length (str mem number) \<and>
            (str mem number ! j = CHR ''+'' \<or> str mem number ! j = CHR ''-'') \<longrightarrow>
            str mem number ! (j - 1) \<in> set ''EePp'') \<and>
         (hd (data mem p') = CHR ''+'' \<or> hd (data mem p') = CHR ''-'' \<longrightarrow>
            last (str mem number) \<notin> set ''EePp'')"
proof -
  define m where "m = data mem p"
  from munchNumber_result [OF assms] obtain n where
    lp: "munchNumber_loop (str mem p) m 0 False False False False = Inr n"
    and n: "0 < n" "n < length m"
    and tx: "str mem number = take n m" and rest: "data mem p' = drop n m"
    unfolding m_def by blast
  from n have len: "length (str mem number) = n" by (simp add: tx)
  have nth: "str mem number ! j = m ! j" if "j < n" for j using that by (simp add: tx)
  from n have "take n m \<noteq> []" by auto
  with n have lst: "last (str mem number) = m ! (n - 1)"
    unfolding tx by (simp add: last_conv_nth)
  from n have hd: "hd (data mem p') = m ! n" by (simp add: rest hd_drop_conv_nth)
  have "str mem number ! (j - 1) \<in> set ''EePp''"
    if "0 < j" "j < n" "str mem number ! j = CHR ''+'' \<or> str mem number ! j = CHR ''-''" for j
  proof -
    from that have "m ! j = CHR ''+'' \<or> m ! j = CHR ''-''" by (simp add: nth)
    with munchNumber_loop_signs [OF lp] that have "strchr ''EePp'' (m ! (j - 1))" by auto
    moreover from munchNumber_loop_Inr [OF lp] that have "m ! (j - 1) \<noteq> NUL" by auto
    ultimately have "m ! (j - 1) \<in> set ''EePp''" by (simp add: strchr_def)
    with that show ?thesis by (simp add: nth)
  qed
  moreover have "last (str mem number) \<notin> set ''EePp''"
    if "hd (data mem p') = CHR ''+'' \<or> hd (data mem p') = CHR ''-''"
    using munchNumber_loop_signs [OF lp] that by (auto simp: hd lst strchr_def)
  ultimately show ?thesis by (simp add: len)
qed

subsection \<open>How the line counter moves\<close>
























subsection \<open>The loop need not end\<close>

text \<open>
  At \<^verbatim>\<open>#line\<close> with no newline in the rest of the input, \<^verbatim>\<open>qfind\<close> returns \<^verbatim>\<open>npos\<close>, the sum
  \<^verbatim>\<open>tokenLen\<close> wraps round to 0, and the iteration pushes an empty token and leaves \<^verbatim>\<open>pc\<close>
  where it was.
\<close>

lemma hashline_step:
  assumes rest: "NL \<notin> set rest" and lead: "CHR ''#'' \<notin> set (table_leads tb)"
    and pc: "pc s = \<lparr>sp_begin = 0, sp_size = length rest + 6\<rparr>"
  shows "step tb (''#line'' @ rest @ [NUL] @ beyond) fn s =
     Continue (s\<lparr>pc := pc s, output := output s @ [mkToken fn s TK_HASHLINE \<lparr>sp_begin = 0, sp_size = 0\<rparr>],
                 preTokenPtr := 0, preTokenLen := 0\<rparr>)"
proof -
  define mem where "mem = ''#line'' @ rest @ [NUL] @ beyond"
  define pc1 where "pc1 = \<lparr>sp_begin = 1, sp_size = length rest + 5\<rparr>"
  have d: "data mem (pc s) = CHR ''#'' # ''line'' @ rest @ [NUL] @ beyond"
    by (simp add: data_def pc mem_def)
  have adv: "sp_advance (pc s) (Suc 0) = Inr pc1"
    by (simp add: sp_advance_def pc pc1_def)
  have "munchSpaces_loop (data mem pc1) 0 = Inr 0"
    by (subst munchSpaces_loop.simps) (simp add: data_def pc1_def mem_def)
  then have ms: "munchSpaces mem pc1 = Inr (\<lparr>sp_begin = 1, sp_size = 0\<rparr>, pc1)"
    by (simp add: munchSpaces_def munchChars_def pc1_def)
  define xs where "xs = ''line'' @ rest @ [NUL]"
  have len: "length xs = length rest + 5" by (simp add: xs_def)
  have "take (length xs) (xs @ beyond) = xs" by simp
  then have "take (length rest + 5) (xs @ beyond) = xs" by (simp only: len)
  moreover have "drop 1 mem = xs @ beyond" by (simp add: mem_def xs_def)
  ultimately have "str mem pc1 = xs" by (simp add: str_def pc1_def)
  then have s1: "str mem pc1 = ''line'' @ rest @ [NUL]" by (simp only: xs_def)
  from rest have qf: "qfind (''line'' @ rest @ [NUL]) NL = npos"
    by (simp add: qfind_def)
  have wrap: "size_t_add (size_t_add (Suc 0) 0) npos = 0"
    by (simp add: size_t_add_def npos_def)
  have "step tb mem fn s = directive mem fn s"
    using step_explicit [OF d lead] by (simp add: explicit_cases_def)
  also have "\<dots> = INSERT_TOKEN fn s TK_HASHLINE 0"
    using qf wrap by (simp add: directive_def adv ms s1 startsWith_def Let_def)
  also have "\<dots> = Continue (s\<lparr>pc := pc s,
      output := output s @ [mkToken fn s TK_HASHLINE \<lparr>sp_begin = 0, sp_size = 0\<rparr>],
      preTokenPtr := 0, preTokenLen := 0\<rparr>)"
    by (simp add: INSERT_TOKEN_def munchChars_def pc)
  finally show ?thesis by (simp add: mem_def)
qed

lemma tokenize_hashline_diverges:
  assumes rest: "NL \<notin> set rest" and lead: "CHR ''#'' \<notin> set (table_leads tb)"
  shows "tokenize tb beyond (''#line'' @ rest) fn out0 = None"
proof (rule ccontr)
  define mem where "mem = ''#line'' @ rest @ [NUL] @ beyond"
  define I where "I = (\<lambda>s :: state. pc s = \<lparr>sp_begin = 0, sp_size = length rest + 6\<rparr>)"
  define Q where "Q = (\<lambda>r :: error option \<times> Token list. False)"
  assume "tokenize tb beyond (''#line'' @ rest) fn out0 \<noteq> None"
  then obtain r where "tokenize_loop tb mem fn (initial_state (''#line'' @ rest)) = Some r"
    by (auto simp: tokenize_def mem_def)
  then have "Q r"
  proof (rule tokenize_loop_invariant [where I = I])
    show "I (initial_state (''#line'' @ rest))" by (simp add: I_def initial_state_def)
  next
    fix s s' assume "I s" and "step tb mem fn s = Continue s'"
    with hashline_step [OF rest lead, of s beyond fn] show "I s'"
      by (auto simp: I_def mem_def)
  next
    fix s e assume "I s" and "step tb mem fn s = Throw e"
    with hashline_step [OF rest lead, of s beyond fn] show "Q (Some e, output s)"
      by (simp add: I_def mem_def)
  next
    fix s s' assume "I s" and "step tb mem fn s = Return s'"
    with hashline_step [OF rest lead, of s beyond fn] show "Q (None, output s')"
      by (simp add: I_def mem_def)
  qed
  then show False by (simp add: Q_def)
qed

section \<open>The claims\<close>

text \<open>
  C1 (the code does not do this). The claim: concatenating each token's leading trivia and
  lexeme, in order, gives back the input up to and including the sentinel. Only the label
  \<^verbatim>\<open>INSERT_TOKEN\<close> sets \<^verbatim>\<open>preTokenPtr\<close> and \<^verbatim>\<open>preTokenLen\<close> anew; after a word, a number or a
  literal they stay as they were. For the input \<^verbatim>\<open>a b\<close> the trivia recorded for \<^verbatim>\<open>b\<close> and
  for the end of input is the one character at offset 0, which is \<^verbatim>\<open>a\<close>, and the
  concatenation is \<^verbatim>\<open>aaba\<close> followed by the sentinel, whatever lies after the buffer.
\<close>

theorem C1_trivia_not_reset:
  "map_option (map_prod id (pieces ''a b''))
     (tokenize spec_tables beyond ''a b'' ''t.cpp'' []) =
     Some (None, [('''', ''a''), (''a'', ''b''), (''a'', [NUL])]) \<and>
   map_option (map_prod id (reconstruct ''a b''))
     (tokenize spec_tables beyond ''a b'' ''t.cpp'' []) =
     Some (None, ''aaba'' @ [NUL])"
  by (simp add: tokenizer_defs)

text \<open>
  C3 (the code does not do this). The claim: the line of a token is the line of its first
  character, also for a literal that spans several lines. \<^verbatim>\<open>munchString\<close> moves \<^verbatim>\<open>line\<close>
  before the token is built, so the string literal that begins on line 1 and holds one
  backslash-newline is recorded on line 2. \<^verbatim>\<open>munchCharLiteral\<close> is called the same way.
\<close>

theorem C3_literal_records_its_last_line:
  "map_option (map_prod id (map (\<lambda>t. (kind t, tok_line t))))
     (tokenize spec_tables beyond ([DQUOTE] @ ''a'' @ [BACKSLASH, NL] @ ''b'' @ [DQUOTE])
        ''t.cpp'' []) =
   Some (None, [(TK_STRING_LITERAL, 2), (TK_EOF, 2)])"
  by (simp add: tokenizer_defs)

text \<open>
  C4 (the code does not do this). The claim: the lexeme of the \<^verbatim>\<open>TK_EOF\<close> token that ends a
  successful call is the sentinel alone; the code says so too, in
  \<^verbatim>\<open>assert(pc.size() == 1)\<close>. For the input \<^verbatim>\<open>#\<close> the \<^verbatim>\<open>case '#'\<close> finds no directive name and
  takes \<^verbatim>\<open>tokenLen = 2\<close>: the token \<^verbatim>\<open>TK_POUND\<close> swallows the sentinel, \<^verbatim>\<open>pc\<close> is empty, and
  \<^verbatim>\<open>pc.front()\<close> reads the byte after the buffer. When that byte is 0, the call returns with
  a \<^verbatim>\<open>TK_EOF\<close> of empty lexeme. An input that holds a NUL ends at that NUL, with a \<^verbatim>\<open>TK_EOF\<close>
  whose lexeme is the rest of the buffer.
\<close>

theorem C4_pound_swallows_the_sentinel:
  "map_option (map_prod id (lexemes ''#''))
     (tokenize spec_tables (NUL # beyond) ''#'' ''t.cpp'' []) =
     Some (None, [(TK_POUND, ''#'' @ [NUL]), (TK_EOF, '''')]) \<and>
   map_option (map_prod id (lexemes (''a'' @ [NUL] @ ''b'')))
     (tokenize spec_tables beyond (''a'' @ [NUL] @ ''b'') ''t.cpp'' []) =
     Some (None, [(TK_IDENTIFIER, ''a''), (TK_EOF, [NUL] @ ''b'' @ [NUL])])"
  by (simp add: tokenizer_defs)

text \<open>
  C8 (amended). The claim as stated, that a failing call leaves no partial result, does
  not hold: \<^verbatim>\<open>output\<close> is the caller's vector, it is emptied at the start and filled as
  the scan goes, and an exception leaves in it the tokens pushed so far.
\<close>

theorem C8_counterexample:
  "map_option (map_prod id (lexemes ''a`'')) (tokenize spec_tables [] ''a`'' ''t.cpp'' []) =
     Some (Some (InvalidCharacter BACKQUOTE ''t.cpp'' 1), [(TK_IDENTIFIER, ''a'')])"
  by (simp add: tokenizer_defs)

text \<open>
  C8, as amended: when \<^verbatim>\<open>tokenize\<close> fails, nothing is rolled back. The caller's vector
  holds, whatever it held before the call, exactly the tokens that the iterations before
  the failing one have pushed: the output of the state that those iterations lead to, in
  which the next iteration throws. None of them is the \<^verbatim>\<open>TK_EOF\<close> token that ends every
  complete result. (The tables of the absent header are assumed not to name \<^verbatim>\<open>TK_EOF\<close>.)
\<close>

theorem C8_failure_keeps_unfinished_output:
  assumes run: "tokenize tb beyond input fn out0 = Some (Some e, toks)"
    and tbl: "TK_EOF \<notin> set (table_kinds tb)"
  shows "tokenize tb beyond input fn [] = Some (Some e, toks) \<and>
         (\<exists>n s. iterations tb (input @ [NUL] @ beyond) fn n (initial_state input) = Some s \<and>
                step tb (input @ [NUL] @ beyond) fn s = Throw e \<and> toks = output s) \<and>
         (\<forall>t \<in> set toks. kind t \<noteq> TK_EOF)"
proof -
  from tokenize_failure_iterations [OF run tbl] obtain n s where
    "iterations tb (input @ [NUL] @ beyond) fn n (initial_state input) = Some s"
    "step tb (input @ [NUL] @ beyond) fn s = Throw e" "toks = output s"
    "TK_EOF \<notin> set (map kind toks)"
    by blast
  moreover from run have "tokenize tb beyond input fn [] = Some (Some e, toks)"
    by (simp add: tokenize_def)
  ultimately show ?thesis by (auto simp: image_iff)
qed

theorem C8_witness:
  "tokenize spec_tables [] ''a`'' ''t.cpp'' [\<lparr>kind = TK_EOF, lexeme = \<lparr>sp_begin = 0, sp_size = 0\<rparr>, tok_file = ''u.cpp'',
              tok_line = 7, leading_trivia = \<lparr>sp_begin = 0, sp_size = 0\<rparr>\<rparr>] =
     Some (Some (InvalidCharacter BACKQUOTE ''t.cpp'' 1),
           [\<lparr>kind = TK_IDENTIFIER, lexeme = \<lparr>sp_begin = 0, sp_size = 1\<rparr>, tok_file = ''t.cpp'',
              tok_line = 1, leading_trivia = \<lparr>sp_begin = 0, sp_size = 0\<rparr>\<rparr>]) \<and>
   TK_EOF \<notin> set (table_kinds spec_tables) \<and>
   tokenize spec_tables [] ''a`'' ''t.cpp'' [] =
     Some (Some (InvalidCharacter BACKQUOTE ''t.cpp'' 1),
           [\<lparr>kind = TK_IDENTIFIER, lexeme = \<lparr>sp_begin = 0, sp_size = 1\<rparr>, tok_file = ''t.cpp'',
              tok_line = 1, leading_trivia = \<lparr>sp_begin = 0, sp_size = 0\<rparr>\<rparr>]) \<and>
   (\<exists>n s. iterations spec_tables (''a`'' @ [NUL] @ []) ''t.cpp'' n (initial_state ''a`'') = Some s \<and>
          step spec_tables (''a`'' @ [NUL] @ []) ''t.cpp'' s =
            Throw (InvalidCharacter BACKQUOTE ''t.cpp'' 1) \<and>
          [\<lparr>kind = TK_IDENTIFIER, lexeme = \<lparr>sp_begin = 0, sp_size = 1\<rparr>, tok_file = ''t.cpp'',
              tok_line = 1, leading_trivia = \<lparr>sp_begin = 0, sp_size = 0\<rparr>\<rparr>] = output s) \<and>
   list_all (\<lambda>t. kind t \<noteq> TK_EOF)
     [\<lparr>kind = TK_IDENTIFIER, lexeme = \<lparr>sp_begin = 0, sp_size = 1\<rparr>, tok_file = ''t.cpp'',
              tok_line = 1, leading_trivia = \<lparr>sp_begin = 0, sp_size = 0\<rparr>\<rparr>]"
proof -
  have run: "tokenize spec_tables [] ''a`'' ''t.cpp''
       [\<lparr>kind = TK_EOF, lexeme = \<lparr>sp_begin = 0, sp_size = 0\<rparr>, tok_file = ''u.cpp'',
              tok_line = 7, leading_trivia = \<lparr>sp_begin = 0, sp_size = 0\<rparr>\<rparr>] =
     Some (Some (InvalidCharacter BACKQUOTE ''t.cpp'' 1),
           [\<lparr>kind = TK_IDENTIFIER, lexeme = \<lparr>sp_begin = 0, sp_size = 1\<rparr>, tok_file = ''t.cpp'',
              tok_line = 1, leading_trivia = \<lparr>sp_begin = 0, sp_size = 0\<rparr>\<rparr>])"
    by (simp add: tokenizer_defs)
  have tbl: "TK_EOF \<notin> set (table_kinds spec_tables)"
    by (simp add: table_kinds_def spec_tables_def)
  from C8_failure_keeps_unfinished_output [OF run tbl] run tbl show ?thesis
    unfolding list_all_iff by blast
qed

text \<open>
  C9 (amended). The claim as stated, that a backslash not followed by a newline makes
  \<^verbatim>\<open>tokenize\<close> fail, does not hold: the \<^verbatim>\<open>ENFORCE\<close> also lets a carriage return pass. For the
  input backslash, carriage return, \<^verbatim>\<open>x\<close> the call succeeds, and \<^verbatim>\<open>x\<close> is on line 2.
\<close>

theorem C9_counterexample:
  "map_option (map_prod id (\<lambda>toks. zip (lexemes ([BACKSLASH, CR] @ ''x'') toks) (map tok_line toks)))
     (tokenize spec_tables [] ([BACKSLASH, CR] @ ''x'') ''t.cpp'' []) =
     Some (None, [((TK_IDENTIFIER, ''x''), 2), ((TK_EOF, [NUL]), 2)])"
  by (simp add: tokenizer_defs)

text \<open>
  C9, as amended: when the cursor is at a backslash (outside a literal or a comment, which
  the munchers eat whole), and the next character is a newline or a carriage return, the
  iteration folds the two characters into the trivia and adds one to \<^verbatim>\<open>line\<close>; with any other
  next character it throws the misplaced-backslash error with the file and the line, and
  so does \<^verbatim>\<open>tokenize\<close>.
\<close>

theorem C9_backslash:
  assumes "str mem (pc s) = BACKSLASH # x # rest"
    and "BACKSLASH \<notin> set (table_leads tb)"
  shows "step tb mem fn s =
     (if x = NL \<or> x = CR then
        Continue (s\<lparr>pc := \<lparr>sp_begin = sp_begin (pc s) + 2, sp_size = sp_size (pc s) - 2\<rparr>,
                    line := line s + 1,
                    preTokenLen := preTokenLen s + 2\<rparr>)
      else Throw (MisplacedBackslash fn (line s))) \<and>
     (x \<noteq> NL \<and> x \<noteq> CR \<longrightarrow>
      tokenize_loop tb mem fn s = Some (Some (MisplacedBackslash fn (line s)), output s))"
  using backslash_step [OF assms, of fn] by (auto intro: tokenize_loop_Throw)

theorem C9_witness:
  "step spec_tables ([BACKSLASH, NL] @ ''x'' @ [NUL]) ''t.cpp'' (initial_state ([BACKSLASH, NL] @ ''x'')) =
     Continue \<lparr>pc = \<lparr>sp_begin = 2, sp_size = 2\<rparr>, line = 2, output = [],
       preTokenPtr = 0, preTokenLen = 2\<rparr> \<and>
   step spec_tables ([BACKSLASH] @ ''x'' @ [NUL]) ''t.cpp'' (initial_state ([BACKSLASH] @ ''x'')) =
     Throw (MisplacedBackslash ''t.cpp'' 1) \<and>
   tokenize spec_tables [] ([BACKSLASH] @ ''x'') ''t.cpp'' [] =
     Some (Some (MisplacedBackslash ''t.cpp'' 1), [])"
  using C9_backslash [of "[BACKSLASH, NL] @ ''x'' @ [NUL]" "initial_state ([BACKSLASH, NL] @ ''x'')"
      NL "''x'' @ [NUL]" spec_tables "''t.cpp''"]
    C9_backslash [of "[BACKSLASH] @ ''x'' @ [NUL]" "initial_state ([BACKSLASH] @ ''x'')"
      "CHR ''x''" "[NUL]" spec_tables "''t.cpp''"]
  by (simp add: str_def initial_state_def table_leads_def spec_tables_def tokenize_def)







text \<open>
  C7 (amended). The claim as stated, that every lexical error carries the file name and
  the line, does not hold: the exceptions of the munchers are built from a message and the
  text that \<^verbatim>\<open>pc\<close> shows, and from nothing else. For the input \<^verbatim>\<open>/* abc\<close> the exception is
  \<^verbatim>\<open>Unterminated comment: \<close> followed by the rest of the input.
\<close>

theorem C7_counterexample:
  "tokenize spec_tables [] ''/* abc'' ''t.cpp'' [] =
     Some (Some (UnterminatedComment (''/* abc'' @ [NUL])), []) \<and>
   error_file (UnterminatedComment (''/* abc'' @ [NUL])) = None \<and>
   error_line (UnterminatedComment (''/* abc'' @ [NUL])) = None"
  by (simp add: tokenizer_defs)

text \<open>
  C7, as amended: at a block comment with no \<^verbatim>\<open>*/\<close> before the sentinel, and at a
  string or character literal in which no delimiter closes the literal before the
  sentinel and the last character is no backslash that escapes the sentinel, \<^verbatim>\<open>tokenize\<close>
  fails with the matching unterminated error. That error carries the text from the
  comment or literal to the end of the input, and neither file name nor line. The errors
  that carry a file name carry the one given to \<^verbatim>\<open>tokenize\<close> and the value of \<^verbatim>\<open>line\<close> in
  the iteration that throws.
\<close>

theorem C7_unterminated_errors_carry_the_text:
  "(str mem (pc s) = ''/*'' @ body @ [NUL] \<and> NUL \<notin> set body \<and> \<not> has_close body \<and>
      CHR ''/'' \<notin> set (table_leads tb) \<longrightarrow>
    tokenize_loop tb mem fn s = Some (Some (UnterminatedComment (str mem (pc s))), output s)) \<and>
   (str mem (pc s) = DQUOTE # body @ [NUL] \<and> NUL \<notin> set body \<and> unclosed DQUOTE body \<and>
      DQUOTE \<notin> set (table_leads tb) \<longrightarrow>
    tokenize_loop tb mem fn s =
      Some (Some (UnterminatedStringConstant (str mem (pc s))), output s)) \<and>
   (str mem (pc s) = SQUOTE # body @ [NUL] \<and> NUL \<notin> set body \<and> unclosed SQUOTE body \<and>
      SQUOTE \<notin> set (table_leads tb) \<longrightarrow>
    tokenize_loop tb mem fn s =
      Some (Some (UnterminatedCharConstant (str mem (pc s))), output s)) \<and>
   error_file (UnterminatedComment x) = None \<and> error_line (UnterminatedComment x) = None \<and>
   error_file (UnterminatedStringConstant x) = None \<and>
   error_line (UnterminatedStringConstant x) = None \<and>
   error_file (UnterminatedCharConstant x) = None \<and>
   error_line (UnterminatedCharConstant x) = None \<and>
   (step tb mem fn s = Throw e \<and> error_file e \<noteq> None \<longrightarrow>
    error_file e = Some fn \<and> error_line e = Some (line s))"
proof (intro conjI impI)
  assume "str mem (pc s) = ''/*'' @ body @ [NUL] \<and> NUL \<notin> set body \<and> \<not> has_close body \<and>
      CHR ''/'' \<notin> set (table_leads tb)"
  then have "step tb mem fn s = Throw (UnterminatedComment (str mem (pc s)))"
    by (intro unterminated_comment_step) auto
  then show "tokenize_loop tb mem fn s =
      Some (Some (UnterminatedComment (str mem (pc s))), output s)"
    by (rule tokenize_loop_Throw)
next
  assume "str mem (pc s) = DQUOTE # body @ [NUL] \<and> NUL \<notin> set body \<and> unclosed DQUOTE body \<and>
      DQUOTE \<notin> set (table_leads tb)"
  then have "step tb mem fn s = Throw (UnterminatedStringConstant (str mem (pc s)))"
    by (intro unterminated_literal_step(1) [where q = DQUOTE and body = body]) auto
  then show "tokenize_loop tb mem fn s =
      Some (Some (UnterminatedStringConstant (str mem (pc s))), output s)"
    by (rule tokenize_loop_Throw)
next
  assume "str mem (pc s) = SQUOTE # body @ [NUL] \<and> NUL \<notin> set body \<and> unclosed SQUOTE body \<and>
      SQUOTE \<notin> set (table_leads tb)"
  then have "step tb mem fn s = Throw (UnterminatedCharConstant (str mem (pc s)))"
    by (intro unterminated_literal_step(2) [where q = SQUOTE and body = body]) auto
  then show "tokenize_loop tb mem fn s =
      Some (Some (UnterminatedCharConstant (str mem (pc s))), output s)"
    by (rule tokenize_loop_Throw)
next
  assume "step tb mem fn s = Throw e \<and> error_file e \<noteq> None"
  then show "error_file e = Some fn" "error_line e = Some (line s)"
    using step_Throw_file [of tb mem fn s e] by auto
qed simp_all

theorem C7_witness:
  "tokenize spec_tables [] ''/* abc'' ''t.cpp'' [] =
     Some (Some (UnterminatedComment (''/* abc'' @ [NUL])), []) \<and>
   tokenize spec_tables [] (DQUOTE # ''abc'') ''t.cpp'' [] =
     Some (Some (UnterminatedStringConstant (DQUOTE # ''abc'' @ [NUL])), []) \<and>
   tokenize spec_tables [] (SQUOTE # ''a'') ''t.cpp'' [] =
     Some (Some (UnterminatedCharConstant (SQUOTE # ''a'' @ [NUL])), []) \<and>
   step spec_tables (''`'' @ [NUL]) ''t.cpp'' (initial_state ''`'') =
     Throw (InvalidCharacter BACKQUOTE ''t.cpp'' 1) \<and>
   error_file (InvalidCharacter BACKQUOTE ''t.cpp'' 1) = Some ''t.cpp'' \<and>
   error_line (InvalidCharacter BACKQUOTE ''t.cpp'' 1) = Some (line (initial_state ''`''))"
proof -
  note main = C7_unterminated_errors_carry_the_text
  have lead: "CHR ''/'' \<notin> set (table_leads spec_tables)" "DQUOTE \<notin> set (table_leads spec_tables)"
    "SQUOTE \<notin> set (table_leads spec_tables)"
    by (simp_all add: table_leads_def spec_tables_def)
  have 1: "tokenize spec_tables [] ''/* abc'' ''t.cpp'' [] =
     Some (Some (UnterminatedComment (''/* abc'' @ [NUL])), [])"
    using main [of "''/* abc'' @ [NUL]" "initial_state ''/* abc''" "'' abc''" spec_tables "''t.cpp''",
        THEN conjunct1] lead
    by (simp add: tokenize_def str_def initial_state_def)
  have 2: "tokenize spec_tables [] (DQUOTE # ''abc'') ''t.cpp'' [] =
     Some (Some (UnterminatedStringConstant (DQUOTE # ''abc'' @ [NUL])), [])"
    using main [of "DQUOTE # ''abc'' @ [NUL]" "initial_state (DQUOTE # ''abc'')" "''abc''"
        spec_tables "''t.cpp''", THEN conjunct2, THEN conjunct1] lead
    by (simp add: tokenize_def str_def initial_state_def)
  have 3: "tokenize spec_tables [] (SQUOTE # ''a'') ''t.cpp'' [] =
     Some (Some (UnterminatedCharConstant (SQUOTE # ''a'' @ [NUL])), [])"
    using main [of "SQUOTE # ''a'' @ [NUL]" "initial_state (SQUOTE # ''a'')" "''a''"
        spec_tables "''t.cpp''", THEN conjunct2, THEN conjunct2, THEN conjunct1] lead
    by (simp add: tokenize_def str_def initial_state_def)
  have 4: "step spec_tables (''`'' @ [NUL]) ''t.cpp'' (initial_state ''`'') =
     Throw (InvalidCharacter BACKQUOTE ''t.cpp'' 1)"
    by (simp add: tokenizer_defs)
  from 1 2 3 4 show ?thesis by (simp add: initial_state_def)
qed

text \<open>
  C5. In the lexeme that \<^verbatim>\<open>munchNumber\<close> returns, every \<^verbatim>\<open>+\<close> or \<^verbatim>\<open>-\<close> comes right after one
  of \<^verbatim>\<open>e E p P\<close>; and when the character that follows the lexeme is a \<^verbatim>\<open>+\<close> or \<^verbatim>\<open>-\<close>, so
  that the number has ended at a sign, the last character of the lexeme is none of them.
  The three examples of the claim tokenize as the claim says.
\<close>

theorem C5_sign_belongs_to_the_number_after_an_exponent_marker:
  "(munchNumber mem p = Inr (number, p') \<longrightarrow>
      (\<forall>j. 0 < j \<and> j < length (str mem number) \<and>
            (str mem number ! j = CHR ''+'' \<or> str mem number ! j = CHR ''-'') \<longrightarrow>
            str mem number ! (j - 1) \<in> set ''EePp'') \<and>
      (hd (data mem p') = CHR ''+'' \<or> hd (data mem p') = CHR ''-'' \<longrightarrow>
         last (str mem number) \<notin> set ''EePp'')) \<and>
   map_option (map_prod id (lexemes ''1.5e-10'')) (tokenize spec_tables beyond ''1.5e-10'' ''t.cpp'' []) =
     Some (None, [(TK_NUMBER, ''1.5e-10''), (TK_EOF, [NUL])]) \<and>
   map_option (map_prod id (lexemes ''1-5'')) (tokenize spec_tables beyond ''1-5'' ''t.cpp'' []) =
     Some (None, [(TK_NUMBER, ''1''), (TK_MINUS, ''-''), (TK_NUMBER, ''5''), (TK_EOF, [NUL])]) \<and>
   map_option (map_prod id (lexemes ''0x1.8p3'')) (tokenize spec_tables beyond ''0x1.8p3'' ''t.cpp'' []) =
     Some (None, [(TK_NUMBER, ''0x1.8p3''), (TK_EOF, [NUL])])"
proof -
  have "munchNumber mem p = Inr (number, p') \<longrightarrow>
      (\<forall>j. 0 < j \<and> j < length (str mem number) \<and>
            (str mem number ! j = CHR ''+'' \<or> str mem number ! j = CHR ''-'') \<longrightarrow>
            str mem number ! (j - 1) \<in> set ''EePp'') \<and>
      (hd (data mem p') = CHR ''+'' \<or> hd (data mem p') = CHR ''-'' \<longrightarrow>
         last (str mem number) \<notin> set ''EePp'')"
    using munchNumber_signs [of mem p number p'] by blast
  moreover have "map_option (map_prod id (lexemes ''1.5e-10''))
      (tokenize spec_tables beyond ''1.5e-10'' ''t.cpp'' []) =
     Some (None, [(TK_NUMBER, ''1.5e-10''), (TK_EOF, [NUL])])"
    by (simp add: tokenizer_defs)
  moreover have "map_option (map_prod id (lexemes ''1-5''))
      (tokenize spec_tables beyond ''1-5'' ''t.cpp'' []) =
     Some (None, [(TK_NUMBER, ''1''), (TK_MINUS, ''-''), (TK_NUMBER, ''5''), (TK_EOF, [NUL])])"
    by (simp add: tokenizer_defs)
  moreover have "map_option (map_prod id (lexemes ''0x1.8p3''))
      (tokenize spec_tables beyond ''0x1.8p3'' ''t.cpp'' []) =
     Some (None, [(TK_NUMBER, ''0x1.8p3''), (TK_EOF, [NUL])])"
    by (simp add: tokenizer_defs)
  ultimately show ?thesis by (intro conjI)
qed

theorem C5_witness:
  "munchNumber (''1e+5+3'' @ [NUL]) \<lparr>sp_begin = 0, sp_size = 7\<rparr> =
     Inr (\<lparr>sp_begin = 0, sp_size = 4\<rparr>, \<lparr>sp_begin = 4, sp_size = 3\<rparr>) \<and>
   str (''1e+5+3'' @ [NUL]) \<lparr>sp_begin = 0, sp_size = 4\<rparr> = ''1e+5'' \<and>
   ''1e+5'' ! 2 = CHR ''+'' \<and> ''1e+5'' ! (2 - 1) \<in> set ''EePp'' \<and>
   hd (data (''1e+5+3'' @ [NUL]) \<lparr>sp_begin = 4, sp_size = 3\<rparr>) = CHR ''+'' \<and>
   last ''1e+5'' \<notin> set ''EePp''"
proof -
  have run: "munchNumber (''1e+5+3'' @ [NUL]) \<lparr>sp_begin = 0, sp_size = 7\<rparr> =
     Inr (\<lparr>sp_begin = 0, sp_size = 4\<rparr>, \<lparr>sp_begin = 4, sp_size = 3\<rparr>)"
    by (simp add: munchNumber_def munchChars_def str_def data_def munchNumber_loop.simps
        isdigit_def strchr_def)
  have tx: "str (''1e+5+3'' @ [NUL]) \<lparr>sp_begin = 0, sp_size = 4\<rparr> = ''1e+5''"
    by (simp add: str_def)
  have hd: "hd (data (''1e+5+3'' @ [NUL]) \<lparr>sp_begin = 4, sp_size = 3\<rparr>) = CHR ''+''"
    by (simp add: data_def)
  from C5_sign_belongs_to_the_number_after_an_exponent_marker
    [of "''1e+5+3'' @ [NUL]" "\<lparr>sp_begin = 0, sp_size = 7\<rparr>" "\<lparr>sp_begin = 0, sp_size = 4\<rparr>"
      "\<lparr>sp_begin = 4, sp_size = 3\<rparr>", THEN conjunct1, rule_format, OF run]
  have "\<forall>j. 0 < j \<and> j < length (str (''1e+5+3'' @ [NUL]) \<lparr>sp_begin = 0, sp_size = 4\<rparr>) \<and>
          (str (''1e+5+3'' @ [NUL]) \<lparr>sp_begin = 0, sp_size = 4\<rparr> ! j = CHR ''+'' \<or>
           str (''1e+5+3'' @ [NUL]) \<lparr>sp_begin = 0, sp_size = 4\<rparr> ! j = CHR ''-'') \<longrightarrow>
          str (''1e+5+3'' @ [NUL]) \<lparr>sp_begin = 0, sp_size = 4\<rparr> ! (j - 1) \<in> set ''EePp''"
    and "hd (data (''1e+5+3'' @ [NUL]) \<lparr>sp_begin = 4, sp_size = 3\<rparr>) = CHR ''+'' \<or>
         hd (data (''1e+5+3'' @ [NUL]) \<lparr>sp_begin = 4, sp_size = 3\<rparr>) = CHR ''-'' \<longrightarrow>
         last (str (''1e+5+3'' @ [NUL]) \<lparr>sp_begin = 0, sp_size = 4\<rparr>) \<notin> set ''EePp''"
    by blast+
  from this(1) [rule_format, of 2] this(2) run tx hd show ?thesis by simp
qed




end
